theory Spec2Isabelle
  imports Main
begin

section \<open>The account storage of \<open>helpers/imap/on-copy.js\<close>\<close>

text \<open>
  The COPY handler works on three tables of the per-account SQLite file: \<open>Messages\<close>,
  \<open>Attachments\<close> and \<open>Mailboxes\<close>. A table is the list of its rows. Identifiers are the
  strings that \<open>ObjectId.toString()\<close> yields; UIDs, sizes and counters are the integers the
  columns hold (IMAP UIDs stay below \<open>2^32\<close>, where the arithmetic of JavaScript numbers is
  exact). Columns that \<open>onCopy\<close> neither reads nor writes are left out of the rows.
\<close>

type_synonym oid = string
type_synonym hash = string
type_synonym timestamp = int

datatype mimeTree =
  MimeNode (attachmentMap: "(string \<times> hash) list") (childNodes: "mimeTree list")

record message =
  m_id :: oid
  mailbox :: oid
  uid :: nat
  exp_flag :: nat
  rdate :: timestamp
  modseq :: nat
  junk :: bool
  remoteAddress :: string
  transaction :: string
  mimeTree :: mimeTree
  magic :: int
  size_bytes :: nat
  copied :: bool

record attachment =
  hash :: hash
  counter :: int
  att_magic :: int
  counterUpdated :: timestamp

text \<open>
  \<open>retention\<close> is \<open>None\<close> when \<open>typeof targetMailbox.retention\<close> is not \<open>'number'\<close> and
  \<open>Some r\<close> when it is the number \<open>r\<close> (milliseconds).
\<close>

record mbox =
  mb_id :: oid
  path :: string
  uidNext :: nat
  uidValidity :: nat
  modifyIndex :: nat
  retention :: "int option"
  specialUse :: string

record database =
  Messages :: "message list"
  Attachments :: "attachment list"
  Mailboxes :: "mbox list"

section \<open>Errors, statements and observable events\<close>

datatype error = Error (message: string) (imapResponse: "string option")

text \<open>
  The four kinds of statement that the transaction callback prepares and runs (lines 190-195,
  201-219, 242-256 and 261-273), and the \<open>select\<close> of line 139-154. \<open>Select b us\<close> carries the
  source mailbox and \<open>update.messages\<close>; \<open>UpdateAttachments hs g t\<close> is the update with
  \<open>hash $in hs\<close>, \<open>$inc {counter: 1, magic: g}\<close> and \<open>$set {counterUpdated: t}\<close>.
\<close>

datatype stmt =
  Select oid "nat list"
| InsertMessage message
| UpdateAttachments "hash list" int timestamp
| SetCopied "oid list"
| SetUidNext oid nat

datatype entry = Entry (command: string) (e_uid: nat) (e_mailbox: oid) (e_message: oid)

record lock =
  success :: bool
  lock_id :: string

datatype event =
  RefreshSession
| QuotaCheck nat
| AcquireLock
| ReleaseLock lock
| Ran stmt
| Fatal error
| UpdateStorageUsed
| AddEntries oid "entry list"
| Fire string

record update =
  destination :: string
  messages :: "nat list"

record session =
  session_id :: string
  session_remoteAddress :: string

datatype response =
  Response (uidValidity_r: nat) (sourceUid_r: "nat list") (destinationUid_r: "nat list")

text \<open>
  What the handler passes to its callback \<open>fn\<close>: \<open>fn(err)\<close>, \<open>fn(null, bool, response)\<close>, or
  \<open>fn(null, err.imapResponse)\<close> (only on the proxied path, line 66).
\<close>

datatype callback =
  FnError error
| FnOk bool response
| FnCode string

section \<open>Collaborators outside \<open>on-copy.js\<close>\<close>

text \<open>
  The handler calls helpers, models and libraries that are not part of this file. Each is a
  field of the environment, so every theorem holds whatever they do:
  \<^item> \<open>wsp\<close>: the remote worker, when one is configured (\<open>this.wsp\<close>), answering the
    \<open>copy\<close> request with \<open>[bool, response]\<close> or throwing;
  \<^item> \<open>refreshSession\<close>, \<open>updateStorageUsed\<close>, \<open>addEntries\<close>: \<open>Some e\<close> when the call throws \<open>e\<close>;
  \<^item> \<open>isOverQuota d\<close>: the answer of \<open>Aliases.isOverQuota\<close> for \<open>d\<close> more bytes, or its error;
  \<^item> \<open>acquireLock\<close>, \<open>releaseLock\<close>: the functions of \<open>#helpers/lock\<close>;
  \<^item> \<open>checkRangeQuery us\<close>: the UID condition that \<open>tools.checkRangeQuery\<close> builds from the
    UID list, as a predicate on a row's UID;
  \<^item> \<open>getAttachments\<close>: \<open>#helpers/get-attachments\<close>, the attachment hashes of a body tree;
  \<^item> \<open>newObjectId k\<close>: the \<open>k\<close>-th \<open>ObjectId\<close> generated in this call; \<open>dateNow k\<close> and
    \<open>newDate k\<close>: the clock read for \<open>rdate\<close> and for \<open>counterUpdated\<close> in iteration \<open>k\<close>;
  \<^item> \<open>faults q\<close>: \<open>Some e\<close> when preparing or running statement \<open>q\<close> throws \<open>e\<close>;
  \<^item> \<open>refineAndLogError\<close>: \<open>#helpers/refine-and-log-error\<close>, applied to whatever the body throws.
\<close>

record env =
  wsp :: "(session \<Rightarrow> oid \<Rightarrow> update \<Rightarrow> error + bool \<times> response) option"
  refreshSession :: "error option"
  isOverQuota :: "nat \<Rightarrow> error + bool"
  acquireLock :: "error + lock option"
  releaseLock :: "lock \<Rightarrow> error option"
  checkRangeQuery :: "nat list \<Rightarrow> nat \<Rightarrow> bool"
  getAttachments :: "mimeTree \<Rightarrow> hash list"
  newObjectId :: "nat \<Rightarrow> oid"
  dateNow :: "nat \<Rightarrow> timestamp"
  newDate :: "nat \<Rightarrow> timestamp"
  faults :: "stmt \<Rightarrow> error option"
  updateStorageUsed :: "error option"
  addEntries :: "entry list \<Rightarrow> error option"
  refineAndLogError :: "error \<Rightarrow> error"

section \<open>Statements on the storage\<close>

text \<open>
  Modelled from the spec: \<open>Mailboxes.findOne\<close> is defined in \<open>#models/mailboxes\<close>, outside
  \<open>on-copy.js\<close>; it resolves a mailbox by identifier or by path and yields nothing when no
  row matches.
\<close>

definition findOne :: "(mbox \<Rightarrow> bool) \<Rightarrow> database \<Rightarrow> mbox option" where
  "findOne cond d = find cond (Mailboxes d)"

text \<open>
  The rows the \<open>select\<close> of lines 131-154 returns: those of the source mailbox, restricted
  by the UID condition only when \<open>update.messages\<close> is not empty, sorted by \<open>uid\<close>.
\<close>

definition select_messages :: "env \<Rightarrow> mbox \<Rightarrow> update \<Rightarrow> database \<Rightarrow> message list" where
  "select_messages E src upd d =
     sort_key uid
       (filter (\<lambda>m. mailbox m = mb_id src \<and>
                     (if length (messages upd) > 0 then checkRangeQuery E (messages upd) (uid m)
                      else True))
          (Messages d))"

fun apply_stmt :: "stmt \<Rightarrow> database \<Rightarrow> database" where
  "apply_stmt (Select b us) d = d"
| "apply_stmt (InsertMessage m) d = d\<lparr>Messages := Messages d @ [m]\<rparr>"
| "apply_stmt (UpdateAttachments hs g t) d =
     d\<lparr>Attachments :=
         map (\<lambda>a. if hash a \<in> set hs
                   then a\<lparr>counter := counter a + 1, att_magic := att_magic a + g,
                          counterUpdated := t\<rparr>
                   else a)
           (Attachments d)\<rparr>"
| "apply_stmt (SetCopied ids) d =
     d\<lparr>Messages := map (\<lambda>m. if m_id m \<in> set ids then m\<lparr>copied := True\<rparr> else m) (Messages d)\<rparr>"
| "apply_stmt (SetUidNext b u) d =
     d\<lparr>Mailboxes := map (\<lambda>x. if mb_id x = b then x\<lparr>uidNext := u\<rparr> else x) (Mailboxes d)\<rparr>"

section \<open>The handler\<close>

text \<open>
  The storage, the log of events, and the local variables of lines 95-100 and 147 that the
  transaction callback updates.
\<close>

record frame =
  db :: database
  trace :: "event list"
  sourceIds :: "oid list"
  sourceUid :: "nat list"
  destinationUid :: "nat list"
  entries :: "entry list"
  copiedMessages :: nat
  copiedStorage :: nat
  uidNext' :: nat

text \<open>\<open>session.db.prepare(sql.query).run(sql.values)\<close>: the statement is run, or throws.\<close>

definition run :: "env \<Rightarrow> stmt \<Rightarrow> frame \<Rightarrow> error option \<times> frame" where
  "run E q s =
     (let s' = s\<lparr>trace := trace s @ [Ran q]\<rparr>
      in case faults E q of
           Some e \<Rightarrow> (Some e, s')
         | None \<Rightarrow> (None, s'\<lparr>db := apply_stmt q (db s')\<rparr>))"

text \<open>The row that lines 167-186 make of a source row \<open>m\<close> in iteration \<open>k\<close>.\<close>

definition junk_name :: string where
  "junk_name = CHR 0x5C # ''Junk''"

definition rewrite :: "env \<Rightarrow> session \<Rightarrow> mbox \<Rightarrow> mbox \<Rightarrow> nat \<Rightarrow> nat \<Rightarrow> message \<Rightarrow> message" where
  "rewrite E sess src tm k u m =
     m\<lparr>m_id := newObjectId E k,
       mailbox := mb_id tm,
       uid := u,
       exp_flag := (if (case retention tm of Some r \<Rightarrow> r \<noteq> 0 | None \<Rightarrow> False) then 1 else 0),
       rdate := dateNow E k + (case retention tm of Some r \<Rightarrow> r | None \<Rightarrow> 0),
       modseq := modifyIndex src,
       junk := (specialUse tm = junk_name),
       remoteAddress := session_remoteAddress sess,
       transaction := ''COPY''\<rparr>"

text \<open>One iteration of the loop of lines 159-238.\<close>

definition copy_one :: "env \<Rightarrow> session \<Rightarrow> mbox \<Rightarrow> mbox \<Rightarrow> message \<Rightarrow> frame \<Rightarrow> error option \<times> frame" where
  "copy_one E sess src tm m s =
     (let k = copiedMessages s;
          s1 = s\<lparr>sourceUid := uid m # sourceUid s,
                 sourceIds := sourceIds s @ [m_id m],
                 destinationUid := uidNext' s # destinationUid s\<rparr>;
          m' = rewrite E sess src tm k (uidNext' s) m
      in case run E (InsertMessage m') s1 of
           (Some e, s2) \<Rightarrow> (Some e, s2)
         | (None, s2) \<Rightarrow>
             (let attachmentIds = getAttachments E (mimeTree m')
              in case (if length attachmentIds > 0
                       then run E (UpdateAttachments attachmentIds (magic m') (newDate E k)) s2
                       else (None, s2)) of
                   (Some e, s3) \<Rightarrow> (Some e, s3)
                 | (None, s3) \<Rightarrow>
                     (None, s3\<lparr>copiedMessages := copiedMessages s3 + 1,
                               copiedStorage := copiedStorage s3 + size_bytes m',
                               uidNext' := uidNext' s3 + 1,
                               entries := entries s3 @
                                 [Entry ''EXISTS'' (uid m') (mb_id tm) (newObjectId E k)]\<rparr>)))"

fun copy_messages ::
  "env \<Rightarrow> session \<Rightarrow> mbox \<Rightarrow> mbox \<Rightarrow> message list \<Rightarrow> frame \<Rightarrow> error option \<times> frame" where
  "copy_messages E sess src tm [] s = (None, s)"
| "copy_messages E sess src tm (m # ms) s =
     (case copy_one E sess src tm m s of
        (Some e, s1) \<Rightarrow> (Some e, s1)
      | (None, s1) \<Rightarrow> copy_messages E sess src tm ms s1)"

text \<open>The callback given to \<open>session.db.transaction\<close> (lines 158-275).\<close>

definition batch ::
  "env \<Rightarrow> session \<Rightarrow> mbox \<Rightarrow> mbox \<Rightarrow> message list \<Rightarrow> frame \<Rightarrow> error option \<times> frame" where
  "batch E sess src tm ms s =
     (case copy_messages E sess src tm ms s of
        (Some e, s1) \<Rightarrow> (Some e, s1)
      | (None, s1) \<Rightarrow>
          (case run E (SetCopied (sourceIds s1)) s1 of
             (Some e, s2) \<Rightarrow> (Some e, s2)
           | (None, s2) \<Rightarrow> run E (SetUidNext (mb_id tm) (uidNext' s2)) s2))"

text \<open>
  Modelled from the spec: \<open>session.db.transaction(f).immediate(...)\<close> belongs to the storage
  engine, outside \<open>on-copy.js\<close>. It runs \<open>f\<close> as a single atomic unit: when \<open>f\<close> throws,
  the whole unit is aborted with no partial visibility (every row change made by \<open>f\<close> is
  undone) and the error is thrown on; the variables of the enclosing function that \<open>f\<close>
  assigned keep their values.
\<close>

definition transaction_immediate ::
  "(frame \<Rightarrow> error option \<times> frame) \<Rightarrow> frame \<Rightarrow> error option \<times> frame" where
  "transaction_immediate f s =
     (case f s of
        (Some e, s') \<Rightarrow> (Some e, s'\<lparr>db := db s\<rparr>)
      | (None, s') \<Rightarrow> (None, s'))"

text \<open>
  Lines 128-279: the guarded section. It yields the error it caught (\<open>err\<close>), the value of
  \<open>lock\<close> (\<open>None\<close> while unassigned or when the helper resolved to nothing) and the frame.
\<close>

definition guarded ::
  "env \<Rightarrow> session \<Rightarrow> mbox \<Rightarrow> mbox \<Rightarrow> update \<Rightarrow> frame \<Rightarrow> error option \<times> lock option \<times> frame" where
  "guarded E sess src tm upd s0 =
     (let s1 = s0\<lparr>trace := trace s0 @ [AcquireLock]\<rparr>
      in case acquireLock E of
           Inl e \<Rightarrow> (Some e, None, s1)
         | Inr lk \<Rightarrow>
             (let q = Select (mb_id src) (messages upd);
                  s2 = s1\<lparr>trace := trace s1 @ [Ran q], uidNext' := uidNext tm\<rparr>
              in case faults E q of
                   Some e \<Rightarrow> (Some e, lk, s2)
                 | None \<Rightarrow>
                     (let ms = select_messages E src upd (db s2)
                      in if length ms > 0
                         then (case transaction_immediate (batch E sess src tm ms) s2 of
                                 (r, s3) \<Rightarrow> (r, lk, s3))
                         else (None, lk, s2))))"

text \<open>Lines 281-288: the release, attempted when \<open>lock?.success\<close> holds.\<close>

definition release :: "env \<Rightarrow> lock option \<Rightarrow> frame \<Rightarrow> frame" where
  "release E lk s =
     (case lk of
        None \<Rightarrow> s
      | Some l \<Rightarrow>
          if success l
          then (case releaseLock E l of
                  Some e \<Rightarrow> s\<lparr>trace := trace s @ [ReleaseLock l, Fatal e]\<rparr>
                | None \<Rightarrow> s\<lparr>trace := trace s @ [ReleaseLock l]\<rparr>)
          else s)"

text \<open>
  Lines 292-335: the quota check after the copy. It is started and not awaited; its only
  effect is a fatal log entry, recorded here where the check is started.
\<close>

definition over_quota_error :: error where
  "over_quota_error = Error ''IMAP_MAILBOX_OVER_QUOTA'' (Some ''OVERQUOTA'')"

definition exceeds_quota_error :: error where
  "exceeds_quota_error = Error ''IMAP_MAILBOX_MESSAGE_EXCEEDS_QUOTA'' (Some ''OVERQUOTA'')"

definition post_quota :: "env \<Rightarrow> frame \<Rightarrow> frame" where
  "post_quota E s =
     (if copiedMessages s > 0 \<and> copiedStorage s > 0
      then (let s1 = s\<lparr>trace := trace s @ [QuotaCheck (copiedStorage s)]\<rparr>
            in case isOverQuota E (copiedStorage s) of
                 Inl e \<Rightarrow> s1\<lparr>trace := trace s1 @ [Fatal e]\<rparr>
               | Inr over \<Rightarrow>
                   if over then s1\<lparr>trace := trace s1 @ [Fatal exceeds_quota_error]\<rparr> else s1)
      else s)"

text \<open>Lines 356-362: the storage figure is refreshed; a failure is logged and swallowed.\<close>

definition update_storage :: "env \<Rightarrow> frame \<Rightarrow> frame" where
  "update_storage E s =
     (case updateStorageUsed E of
        Some e \<Rightarrow> s\<lparr>trace := trace s @ [UpdateStorageUsed, Fatal e]\<rparr>
      | None \<Rightarrow> s\<lparr>trace := trace s @ [UpdateStorageUsed]\<rparr>)"

text \<open>Lines 364-372: the notifier, called when there are entries.\<close>

definition notify :: "env \<Rightarrow> mbox \<Rightarrow> update \<Rightarrow> frame \<Rightarrow> error option \<times> frame" where
  "notify E tm upd s =
     (if length (entries s) > 0
      then (let s1 = s\<lparr>trace := trace s @ [AddEntries (mb_id tm) (entries s)]\<rparr>
            in case addEntries E (entries s) of
                 Some e \<Rightarrow> (Some e, s1)
               | None \<Rightarrow> (None, s1\<lparr>trace := trace s1 @ [Fire (destination upd)]\<rparr>))
      else (None, s))"

definition nonexistent_error :: error where
  "nonexistent_error = Error ''IMAP_MAILBOX_DOES_NOT_EXIST'' (Some ''NONEXISTENT'')"

definition trycreate_error :: error where
  "trycreate_error = Error ''IMAP_MAILBOX_DOES_NOT_EXIST'' (Some ''TRYCREATE'')"

definition init_frame :: "database \<Rightarrow> event list \<Rightarrow> frame" where
  "init_frame d t =
     \<lparr>db = d, trace = t, sourceIds = [], sourceUid = [], destinationUid = [], entries = [],
      copiedMessages = 0, copiedStorage = 0, uidNext' = 0\<rparr>"

text \<open>
  Lines 73-378, the body of the outer \<open>try\<close>: what it throws or the response it hands to \<open>fn\<close>,
  the storage afterwards, and the events in their order.
\<close>

definition onCopy_body ::
  "env \<Rightarrow> session \<Rightarrow> oid \<Rightarrow> update \<Rightarrow> database \<Rightarrow> (error + response) \<times> database \<times> event list" where
  "onCopy_body E sess mailboxId upd d =
     (case refreshSession E of
        Some e \<Rightarrow> (Inl e, d, [RefreshSession])
      | None \<Rightarrow>
          (case isOverQuota E 0 of
             Inl e \<Rightarrow> (Inl e, d, [RefreshSession, QuotaCheck 0])
           | Inr over \<Rightarrow>
               if over then (Inl over_quota_error, d, [RefreshSession, QuotaCheck 0])
               else
                 (case findOne (\<lambda>b. mb_id b = mailboxId) d of
                    None \<Rightarrow> (Inl nonexistent_error, d, [RefreshSession, QuotaCheck 0])
                  | Some src \<Rightarrow>
                      (case findOne (\<lambda>b. path b = destination upd) d of
                         None \<Rightarrow> (Inl trycreate_error, d, [RefreshSession, QuotaCheck 0])
                       | Some tm \<Rightarrow>
                           (case guarded E sess src tm upd
                                   (init_frame d [RefreshSession, QuotaCheck 0]) of
                              (err, lk, s1) \<Rightarrow>
                                (let s2 = release E lk s1
                                 in case err of
                                      Some e \<Rightarrow> (Inl e, db s2, trace s2)
                                    | None \<Rightarrow>
                                        (case notify E tm upd (update_storage E (post_quota E s2)) of
                                           (Some e, s3) \<Rightarrow> (Inl e, db s3, trace s3)
                                         | (None, s3) \<Rightarrow>
                                             (Inr (Response (uidValidity tm) (sourceUid s3)
                                                     (destinationUid s3)),
                                              db s3, trace s3))))))))"

text \<open>
  \<open>onCopy\<close> itself. With a remote worker (lines 37-71) the request is proxied and nothing is
  done on the local storage; the progress notices sent on a timer meanwhile are not modelled.
  Without one, the body runs and anything it throws goes through \<open>refineAndLogError\<close> to
  \<open>fn\<close> (lines 379-381).
\<close>

definition onCopy ::
  "env \<Rightarrow> session \<Rightarrow> oid \<Rightarrow> update \<Rightarrow> database \<Rightarrow> callback \<times> database \<times> event list" where
  "onCopy E sess mailboxId upd d =
     (case wsp E of
        Some request \<Rightarrow>
          (case request sess mailboxId upd of
             Inr (b, resp) \<Rightarrow> (FnOk b resp, d, [])
           | Inl err \<Rightarrow>
               (case imapResponse err of
                  Some code \<Rightarrow> (FnCode code, d, [])
                | None \<Rightarrow> (FnError err, d, [])))
      | None \<Rightarrow>
          (case onCopy_body E sess mailboxId upd d of
             (Inl e, d', t) \<Rightarrow> (FnError (refineAndLogError E e), d', t)
           | (Inr resp, d', t) \<Rightarrow> (FnOk True resp, d', t)))"

section \<open>Closed forms and event predicates used in the proofs\<close>

text \<open>
  The rows a run of the loop inserts for the source rows \<open>ms\<close>, when it starts in iteration
  \<open>k\<close> with counter \<open>u\<close>; what the loop's attachment updates make of an attachment row;
  what the two bulk updates after the loop make of a message row and of a mailbox row.
\<close>

fun new_rows :: "env \<Rightarrow> session \<Rightarrow> mbox \<Rightarrow> mbox \<Rightarrow> nat \<Rightarrow> nat \<Rightarrow> message list \<Rightarrow> message list" where
  "new_rows E sess src tm k u [] = []"
| "new_rows E sess src tm k u (m # ms) =
     rewrite E sess src tm k u m # new_rows E sess src tm (k + 1) (u + 1) ms"

fun bump_all :: "env \<Rightarrow> nat \<Rightarrow> message list \<Rightarrow> attachment \<Rightarrow> attachment" where
  "bump_all E k [] a = a"
| "bump_all E k (m # ms) a =
     bump_all E (k + 1) ms
       (if hash a \<in> set (getAttachments E (mimeTree m))
        then a\<lparr>counter := counter a + 1, att_magic := att_magic a + magic m,
               counterUpdated := newDate E k\<rparr>
        else a)"

definition mark_copied :: "oid list \<Rightarrow> message \<Rightarrow> message" where
  "mark_copied ids m = (if m_id m \<in> set ids then m\<lparr>copied := True\<rparr> else m)"

definition set_uidNext :: "oid \<Rightarrow> nat \<Rightarrow> mbox \<Rightarrow> mbox" where
  "set_uidNext b u x = (if mb_id x = b then x\<lparr>uidNext := u\<rparr> else x)"

text \<open>The message rows among \<open>ms\<close> whose body tree references the attachment hash \<open>h\<close>.\<close>

definition referencing :: "env \<Rightarrow> hash \<Rightarrow> message list \<Rightarrow> message list" where
  "referencing E h ms = filter (\<lambda>m. h \<in> set (getAttachments E (mimeTree m))) ms"

text \<open>
  The events that the release and the three steps after it append to the log, as functions of
  what those steps read.
\<close>

definition release_events :: "env \<Rightarrow> lock option \<Rightarrow> event list" where
  "release_events E lk =
     (case lk of
        None \<Rightarrow> []
      | Some l \<Rightarrow>
          if success l
          then (case releaseLock E l of Some e \<Rightarrow> [ReleaseLock l, Fatal e] | None \<Rightarrow> [ReleaseLock l])
          else [])"

definition quota_events :: "env \<Rightarrow> nat \<Rightarrow> nat \<Rightarrow> event list" where
  "quota_events E n b =
     (if n > 0 \<and> b > 0
      then QuotaCheck b #
           (case isOverQuota E b of
              Inl e \<Rightarrow> [Fatal e]
            | Inr over \<Rightarrow> if over then [Fatal exceeds_quota_error] else [])
      else [])"

definition storage_events :: "env \<Rightarrow> event list" where
  "storage_events E =
     (case updateStorageUsed E of
        Some e \<Rightarrow> [UpdateStorageUsed, Fatal e]
      | None \<Rightarrow> [UpdateStorageUsed])"

definition notify_error :: "env \<Rightarrow> entry list \<Rightarrow> error option" where
  "notify_error E es = (if es = [] then None else addEntries E es)"

definition notify_events :: "env \<Rightarrow> mbox \<Rightarrow> update \<Rightarrow> entry list \<Rightarrow> event list" where
  "notify_events E tm upd es =
     (if es = [] then []
      else AddEntries (mb_id tm) es #
           (case addEntries E es of Some e \<Rightarrow> [] | None \<Rightarrow> [Fire (destination upd)]))"

definition post_events :: "env \<Rightarrow> mbox \<Rightarrow> update \<Rightarrow> frame \<Rightarrow> event list" where
  "post_events E tm upd s =
     quota_events E (copiedMessages s) (copiedStorage s) @ storage_events E @
     notify_events E tm upd (entries s)"

text \<open>
  Predicates on the events of the log: a statement of the loop; a statement that did not throw
  or threw the error \<open>r\<close>; the write of \<open>uidNext\<close>; a release attempt; any statement.
\<close>

fun loop_stmt :: "stmt \<Rightarrow> bool" where
  "loop_stmt (InsertMessage m) = True"
| "loop_stmt (UpdateAttachments hs g t) = True"
| "loop_stmt q = False"

fun loop_event :: "env \<Rightarrow> error option \<Rightarrow> event \<Rightarrow> bool" where
  "loop_event E r (Ran q) = (loop_stmt q \<and> (faults E q = None \<or> faults E q = r))"
| "loop_event E r ev = False"

fun ran_event :: "env \<Rightarrow> error option \<Rightarrow> event \<Rightarrow> bool" where
  "ran_event E r (Ran q) = (faults E q = None \<or> faults E q = r)"
| "ran_event E r ev = False"

fun is_uidNext_write :: "event \<Rightarrow> bool" where
  "is_uidNext_write (Ran (SetUidNext b u)) = True"
| "is_uidNext_write ev = False"

fun is_release :: "event \<Rightarrow> bool" where
  "is_release (ReleaseLock l) = True"
| "is_release ev = False"

fun is_ran :: "event \<Rightarrow> bool" where
  "is_ran (Ran q) = True"
| "is_ran ev = False"

section \<open>A concrete account\<close>

text \<open>
  A small account on which the theorems are instantiated: mailbox \<open>A\<close> (path \<open>INBOX\<close>) holds
  the messages with UIDs 9, 5 and 7, in that table order; mailbox \<open>B\<close> (path \<open>Archive\<close>) has
  \<open>uidNext = 100\<close> and retention zero. The message with UID 5 references the hash \<open>h1\<close> twice
  in its body tree. In \<open>env0\<close> every collaborator succeeds; \<open>attachment_hashes\<close> walks the
  tree and keeps repeated hashes. \<open>db1\<close> gives \<open>B\<close> a retention of one day and \<open>db2\<close> the
  retention \<open>-1\<close>; in \<open>envF\<close> the write of \<open>uidNext\<close> throws; in \<open>envR\<close> the release of the
  lock throws.
\<close>

fun attachment_hashes :: "mimeTree \<Rightarrow> hash list" where
  "attachment_hashes (MimeNode am cs) = map snd am @ concat (map attachment_hashes cs)"

definition env0 :: env where
  "env0 = \<lparr>wsp = None, refreshSession = None, isOverQuota = (\<lambda>d. Inr False),
     acquireLock = Inr (Some \<lparr>success = True, lock_id = ''L''\<rparr>),
     releaseLock = (\<lambda>l. None), checkRangeQuery = (\<lambda>us u. u \<in> set us),
     getAttachments = attachment_hashes,
     newObjectId = (\<lambda>k. ''new'' @ replicate k (CHR ''+'')),
     dateNow = (\<lambda>k. 1000), newDate = (\<lambda>k. 2000 + int k), faults = (\<lambda>q. None),
     updateStorageUsed = None, addEntries = (\<lambda>es. None), refineAndLogError = (\<lambda>e. e)\<rparr>"

definition msg0 :: "oid \<Rightarrow> nat \<Rightarrow> mimeTree \<Rightarrow> message" where
  "msg0 i u t = \<lparr>m_id = i, mailbox = ''A'', uid = u, exp_flag = 0, rdate = 0, modseq = 1,
     junk = False, remoteAddress = '''', transaction = ''APPEND'', mimeTree = t, magic = 3,
     size_bytes = 10, copied = False\<rparr>"

definition db0 :: database where
  "db0 = \<lparr>Messages =
       [msg0 ''m9'' 9 (MimeNode [] []),
        msg0 ''m5'' 5 (MimeNode [(''1'', ''h1'')] [MimeNode [(''2'', ''h1'')] []]),
        msg0 ''m7'' 7 (MimeNode [(''1'', ''h1''), (''2'', ''h2'')] [])],
     Attachments =
       [\<lparr>hash = ''h1'', counter = 1, att_magic = 3, counterUpdated = 0\<rparr>,
        \<lparr>hash = ''h2'', counter = 1, att_magic = 3, counterUpdated = 0\<rparr>,
        \<lparr>hash = ''h3'', counter = 4, att_magic = 9, counterUpdated = 0\<rparr>],
     Mailboxes =
       [\<lparr>mb_id = ''A'', path = ''INBOX'', uidNext = 10, uidValidity = 7, modifyIndex = 4,
          retention = None, specialUse = ''''\<rparr>,
        \<lparr>mb_id = ''B'', path = ''Archive'', uidNext = 100, uidValidity = 1, modifyIndex = 2,
          retention = Some 0, specialUse = ''''\<rparr>]\<rparr>"

definition sess0 :: session where
  "sess0 = \<lparr>session_id = ''s'', session_remoteAddress = ''10.0.0.1''\<rparr>"

definition upd0 :: update where
  "upd0 = \<lparr>destination = ''Archive'', messages = []\<rparr>"

definition db1 :: database where
  "db1 = db0\<lparr>Mailboxes :=
       [\<lparr>mb_id = ''A'', path = ''INBOX'', uidNext = 10, uidValidity = 7, modifyIndex = 4,
          retention = None, specialUse = ''''\<rparr>,
        \<lparr>mb_id = ''B'', path = ''Archive'', uidNext = 100, uidValidity = 1, modifyIndex = 2,
          retention = Some 86400000, specialUse = ''''\<rparr>]\<rparr>"

definition db2 :: database where
  "db2 = db0\<lparr>Mailboxes :=
       [\<lparr>mb_id = ''A'', path = ''INBOX'', uidNext = 10, uidValidity = 7, modifyIndex = 4,
          retention = None, specialUse = ''''\<rparr>,
        \<lparr>mb_id = ''B'', path = ''Archive'', uidNext = 100, uidValidity = 1, modifyIndex = 2,
          retention = Some (- 1), specialUse = ''''\<rparr>]\<rparr>"

definition envF :: env where
  "envF = env0\<lparr>faults :=
     (\<lambda>q. if q = SetUidNext ''B'' 103 then Some (Error ''SQLITE_FULL'' None) else None)\<rparr>"

definition envR :: env where
  "envR = env0\<lparr>releaseLock := (\<lambda>l. Some (Error ''LOCK_RELEASE'' None))\<rparr>"

section \<open>One statement, one iteration, the loop\<close>

lemma run_None:
  "run E q s = (None, s') \<Longrightarrow>
     faults E q = None \<and> s' = s\<lparr>trace := trace s @ [Ran q], db := apply_stmt q (db s)\<rparr>"
  by (auto simp: run_def Let_def split: option.splits)

lemma run_Some:
  "run E q s = (Some e, s') \<Longrightarrow> faults E q = Some e \<and> s' = s\<lparr>trace := trace s @ [Ran q]\<rparr>"
  by (auto simp: run_def Let_def split: option.splits)

lemma run_trace:
  "run E q s = (r, s') \<Longrightarrow>
     faults E q = r \<and> trace s' = trace s @ [Ran q] \<and> uidNext' s' = uidNext' s"
  by (auto simp: run_def Let_def split: option.splits)

lemma rewrite_sel [simp]:
  "mimeTree (rewrite E sess src tm k u m) = mimeTree m"
  "magic (rewrite E sess src tm k u m) = magic m"
  "size_bytes (rewrite E sess src tm k u m) = size_bytes m"
  "uid (rewrite E sess src tm k u m) = u"
  "mailbox (rewrite E sess src tm k u m) = mb_id tm"
  "m_id (rewrite E sess src tm k u m) = newObjectId E k"
  by (simp_all add: rewrite_def)

lemma bump_one_nil:
  "getAttachments E (mimeTree m) = [] \<Longrightarrow> map (bump_all E k [m]) xs = xs"
  by (induction xs) simp_all

lemma copy_one_None:
  assumes "copy_one E sess src tm m s = (None, s')"
  shows "sourceUid s' = uid m # sourceUid s"
    and "destinationUid s' = uidNext' s # destinationUid s"
    and "sourceIds s' = sourceIds s @ [m_id m]"
    and "uidNext' s' = uidNext' s + 1"
    and "copiedMessages s' = copiedMessages s + 1"
    and "copiedStorage s' = copiedStorage s + size_bytes m"
    and "Messages (db s') = Messages (db s) @ [rewrite E sess src tm (copiedMessages s) (uidNext' s) m]"
    and "Attachments (db s') = map (bump_all E (copiedMessages s) [m]) (Attachments (db s))"
    and "Mailboxes (db s') = Mailboxes (db s)"
  using assms
  by (auto simp: copy_one_def Let_def bump_one_nil dest!: run_None run_Some split: prod.splits option.splits if_splits)

lemma copy_messages_Cons_None:
  assumes "copy_messages E sess src tm (m # ms) s = (None, s')"
  obtains s1 where "copy_one E sess src tm m s = (None, s1)"
    and "copy_messages E sess src tm ms s1 = (None, s')"
  using assms by (auto split: prod.splits option.splits)

lemma copy_messages_None:
  "copy_messages E sess src tm ms s = (None, s') \<Longrightarrow>
     sourceUid s' = rev (map uid ms) @ sourceUid s \<and>
     destinationUid s' = rev [uidNext' s ..< uidNext' s + length ms] @ destinationUid s \<and>
     sourceIds s' = sourceIds s @ map m_id ms \<and>
     uidNext' s' = uidNext' s + length ms \<and>
     copiedMessages s' = copiedMessages s + length ms \<and>
     Messages (db s') =
       Messages (db s) @ new_rows E sess src tm (copiedMessages s) (uidNext' s) ms \<and>
     Attachments (db s') = map (bump_all E (copiedMessages s) ms) (Attachments (db s)) \<and>
     Mailboxes (db s') = Mailboxes (db s)"
proof (induction ms arbitrary: s)
  case Nil
  then show ?case by (simp add: map_idI)
next
  case (Cons m ms)
  from Cons.prems obtain s1 where a: "copy_one E sess src tm m s = (None, s1)"
    and b: "copy_messages E sess src tm ms s1 = (None, s')"
    by (rule copy_messages_Cons_None)
  show ?case using Cons.IH[OF b] copy_one_None[OF a] by (simp add: upt_rec)
qed

lemma loop_event_ran: "loop_event E r ev \<Longrightarrow> ran_event E r ev \<and> \<not> is_uidNext_write ev"
  by (cases "(E, r, ev)" rule: loop_event.cases) (auto elim: loop_stmt.elims)

lemma copy_one_trace:
  "copy_one E sess src tm m s = (r, s') \<Longrightarrow>
     \<exists>t. trace s' = trace s @ t \<and> list_all (loop_event E r) t"
  by (auto simp: copy_one_def Let_def split: prod.splits option.splits if_splits
      dest!: run_None run_Some)

lemma loop_event_None: "loop_event E None ev \<Longrightarrow> loop_event E r ev"
  by (cases "(E, r, ev)" rule: loop_event.cases) auto

lemma copy_messages_trace:
  "copy_messages E sess src tm ms s = (r, s') \<Longrightarrow>
     \<exists>t. trace s' = trace s @ t \<and> list_all (loop_event E r) t"
proof (induction ms arbitrary: s)
  case Nil
  then show ?case by simp
next
  case (Cons m ms)
  obtain r1 s1 where a: "copy_one E sess src tm m s = (r1, s1)"
    by (cases "copy_one E sess src tm m s")
  from copy_one_trace[OF a] obtain t1 where t1: "trace s1 = trace s @ t1"
    "list_all (loop_event E r1) t1" by blast
  show ?case
  proof (cases r1)
    case None
    with a Cons.prems have b: "copy_messages E sess src tm ms s1 = (r, s')" by simp
    from Cons.IH[OF b] obtain t2 where t2: "trace s' = trace s1 @ t2"
      "list_all (loop_event E r) t2" by blast
    from t1(2) None have "list_all (loop_event E r) t1"
      by (auto simp: list_all_iff intro: loop_event_None)
    with t1 t2 show ?thesis by simp
  next
    case (Some e)
    with a Cons.prems have "r = r1" "s' = s1" by auto
    with t1 show ?thesis by simp
  qed
qed

lemma ran_event_None: "ran_event E None ev \<Longrightarrow> ran_event E r ev"
  by (cases "(E, r, ev)" rule: ran_event.cases) auto

section \<open>The batch, the transaction and the guarded section\<close>

lemma batch_None:
  assumes "batch E sess src tm ms s = (None, s')"
  shows "sourceUid s' = rev (map uid ms) @ sourceUid s \<and>
     destinationUid s' = rev [uidNext' s ..< uidNext' s + length ms] @ destinationUid s \<and>
     copiedMessages s' = copiedMessages s + length ms \<and>
     Messages (db s') =
       map (mark_copied (sourceIds s @ map m_id ms))
         (Messages (db s) @ new_rows E sess src tm (copiedMessages s) (uidNext' s) ms) \<and>
     Attachments (db s') = map (bump_all E (copiedMessages s) ms) (Attachments (db s)) \<and>
     Mailboxes (db s') = map (set_uidNext (mb_id tm) (uidNext' s + length ms)) (Mailboxes (db s))"
proof -
  from assms obtain s1 s2 where a: "copy_messages E sess src tm ms s = (None, s1)"
    and b: "run E (SetCopied (sourceIds s1)) s1 = (None, s2)"
    and c: "run E (SetUidNext (mb_id tm) (uidNext' s2)) s2 = (None, s')"
    by (auto simp: batch_def split: prod.splits option.splits)
  show ?thesis
    using copy_messages_None[OF a] run_None[OF b] run_None[OF c]
    by (simp add: mark_copied_def set_uidNext_def cong: map_cong)
qed

lemma batch_trace:
  assumes "batch E sess src tm ms s = (r, s')"
  shows "\<exists>t. trace s' = trace s @ t \<and> list_all (ran_event E r) t \<and>
     (r = None \<longrightarrow>
        filter is_uidNext_write t = [Ran (SetUidNext (mb_id tm) (uidNext' s + length ms))])"
proof -
  obtain r1 s1 where a: "copy_messages E sess src tm ms s = (r1, s1)"
    by (cases "copy_messages E sess src tm ms s")
  from copy_messages_trace[OF a] obtain t1 where t1: "trace s1 = trace s @ t1"
    "list_all (loop_event E r1) t1" by blast
  then have l1: "list_all (ran_event E r1) t1" and u1: "filter is_uidNext_write t1 = []"
    by (auto simp: list_all_iff filter_empty_conv dest: loop_event_ran)
  show ?thesis
  proof (cases r1)
    case (Some e)
    with a assms have "r = r1" "s' = s1" by (auto simp: batch_def)
    with t1 l1 Some show ?thesis by auto
  next
    case None
    from l1 None have l1': "list_all (ran_event E r) t1"
      by (auto simp: list_all_iff intro: ran_event_None)
    from copy_messages_None[OF a[unfolded None]]
    have u: "uidNext' s1 = uidNext' s + length ms" by simp
    obtain r2 s2 where b: "run E (SetCopied (sourceIds s1)) s1 = (r2, s2)"
      by (cases "run E (SetCopied (sourceIds s1)) s1")
    note tb = run_trace[OF b]
    show ?thesis
    proof (cases r2)
      case (Some e)
      with a None b assms have "r = r2" "s' = s2" by (auto simp: batch_def)
      with tb t1(1) l1' u1 Some show ?thesis by auto
    next
      case None2: None
      with a None b assms
      have c: "run E (SetUidNext (mb_id tm) (uidNext' s2)) s2 = (r, s')"
        by (auto simp: batch_def)
      note tc = run_trace[OF c]
      from tb tc t1(1) l1' u1 u None2 show ?thesis by auto
    qed
  qed
qed

lemma transaction_Some:
  "transaction_immediate f s = (Some e, s') \<Longrightarrow> db s' = db s"
  by (auto simp: transaction_immediate_def split: prod.splits option.splits)

lemma transaction_None:
  "transaction_immediate f s = (None, s') \<Longrightarrow> f s = (None, s')"
  by (auto simp: transaction_immediate_def split: prod.splits option.splits)

lemma transaction_trace:
  "transaction_immediate f s = (r, s') \<Longrightarrow> \<exists>s''. f s = (r, s'') \<and> trace s' = trace s''"
  by (auto simp: transaction_immediate_def split: prod.splits option.splits)

lemma guarded_lock:
  "guarded E sess src tm upd s0 = (err, lk, s) \<Longrightarrow>
     lk = (case acquireLock E of Inl e \<Rightarrow> None | Inr l \<Rightarrow> l)"
  by (auto simp: guarded_def Let_def split: sum.splits option.splits if_splits prod.splits)

lemma guarded_Some:
  "guarded E sess src tm upd s0 = (Some e, lk, s) \<Longrightarrow> db s = db s0"
  by (auto simp: guarded_def Let_def split: sum.splits option.splits if_splits prod.splits
      dest!: transaction_Some)

lemma guarded_None:
  assumes "guarded E sess src tm upd s0 = (None, lk, s)"
    and "ms = select_messages E src upd (db s0)"
  shows "sourceUid s = rev (map uid ms) @ sourceUid s0"
    and "destinationUid s = rev [uidNext tm ..< uidNext tm + length ms] @ destinationUid s0"
    and "copiedMessages s = copiedMessages s0 + length ms"
    and "entries s0 = [] \<Longrightarrow> ms = [] \<Longrightarrow> entries s = []"
    and "ms = [] \<Longrightarrow> db s = db s0"
    and "ms \<noteq> [] \<Longrightarrow>
           Messages (db s) =
             map (mark_copied (sourceIds s0 @ map m_id ms))
               (Messages (db s0) @ new_rows E sess src tm (copiedMessages s0) (uidNext tm) ms) \<and>
           Attachments (db s) = map (bump_all E (copiedMessages s0) ms) (Attachments (db s0)) \<and>
           Mailboxes (db s) =
             map (set_uidNext (mb_id tm) (uidNext tm + length ms)) (Mailboxes (db s0))"
  using assms
  by (auto simp: guarded_def Let_def split: sum.splits option.splits if_splits prod.splits
      dest!: transaction_None batch_None)

lemma guarded_trace:
  assumes "guarded E sess src tm upd s0 = (err, lk, s)"
  shows "\<exists>t. trace s = trace s0 @ AcquireLock # t \<and> list_all (ran_event E err) t \<and>
     (err = None \<longrightarrow>
        filter is_uidNext_write t =
          (if select_messages E src upd (db s0) = [] then []
           else [Ran (SetUidNext (mb_id tm)
                   (uidNext tm + length (select_messages E src upd (db s0))))]))"
proof (cases "acquireLock E")
  case (Inl e)
  with assms show ?thesis by (auto simp: guarded_def Let_def)
next
  case (Inr l)
  let ?q = "Select (mb_id src) (messages upd)"
  let ?s2 = "s0\<lparr>trace := trace s0 @ [AcquireLock, Ran ?q], uidNext' := uidNext tm\<rparr>"
  let ?ms = "select_messages E src upd (db s0)"
  show ?thesis
  proof (cases "faults E ?q")
    case (Some e)
    with Inr assms show ?thesis by (auto simp: guarded_def Let_def)
  next
    case None
    show ?thesis
    proof (cases "?ms = []")
      case True
      with None Inr assms show ?thesis by (auto simp: guarded_def Let_def)
    next
      case False
      with None Inr assms
      have "transaction_immediate (batch E sess src tm ?ms) ?s2 = (err, s)"
        by (auto simp: guarded_def Let_def split: prod.splits)
      from transaction_trace[OF this] obtain s'' where
        b: "batch E sess src tm ?ms ?s2 = (err, s'')" and t: "trace s = trace s''" by blast
      from batch_trace[OF b] t None False show ?thesis by auto
    qed
  qed
qed

lemma guarded_trace_plain:
  assumes "guarded E sess src tm upd (init_frame d [RefreshSession, QuotaCheck 0]) = (err, lk, s1)"
  obtains t where "trace s1 = [RefreshSession, QuotaCheck 0, AcquireLock] @ t"
    and "list_all (ran_event E err) t"
  using guarded_trace[OF assms] by (auto simp: init_frame_def)

section \<open>Release, the steps after it, and the whole body\<close>

lemma onCopy_local:
  "wsp E = None \<Longrightarrow>
     onCopy E sess mailboxId upd d =
       (case onCopy_body E sess mailboxId upd d of
          (Inl e, d', t) \<Rightarrow> (FnError (refineAndLogError E e), d', t)
        | (Inr resp, d', t) \<Rightarrow> (FnOk True resp, d', t))"
  by (simp add: onCopy_def)

lemma uidNext_write_ran: "is_uidNext_write ev \<Longrightarrow> is_ran ev"
  by (cases ev rule: is_uidNext_write.cases) simp_all

lemma ran_event_is_ran: "ran_event E r ev \<Longrightarrow> is_ran ev \<and> \<not> is_release ev \<and> ev \<noteq> AcquireLock"
  by (cases "(E, r, ev)" rule: ran_event.cases) simp_all

lemma release_eq: "release E lk s = s\<lparr>trace := trace s @ release_events E lk\<rparr>"
  by (simp add: release_def release_events_def split: option.splits)

lemma post_quota_eq:
  "post_quota E s = s\<lparr>trace := trace s @ quota_events E (copiedMessages s) (copiedStorage s)\<rparr>"
  by (simp add: post_quota_def quota_events_def Let_def split: sum.splits)

lemma update_storage_eq: "update_storage E s = s\<lparr>trace := trace s @ storage_events E\<rparr>"
  by (simp add: update_storage_def storage_events_def split: option.splits)

lemma notify_eq:
  "notify E tm upd s =
     (notify_error E (entries s), s\<lparr>trace := trace s @ notify_events E tm upd (entries s)\<rparr>)"
  by (simp add: notify_def notify_error_def notify_events_def Let_def split: option.splits)

lemma post_events_plain:
  "list_all (\<lambda>ev. \<not> is_ran ev \<and> \<not> is_release ev \<and> ev \<noteq> AcquireLock) (post_events E tm upd s)"
  by (simp add: post_events_def quota_events_def storage_events_def notify_events_def
      split: sum.splits option.splits)

lemma release_events_no_ran: "Ran q \<notin> set (release_events E lk)"
  by (simp add: release_events_def split: option.splits)

lemma post_events_no_ran: "Ran q \<notin> set (post_events E tm upd s)"
  using post_events_plain[of E tm upd s] by (auto simp: list_all_iff)

lemma filter_release_ran:
  "list_all (ran_event E r) t \<Longrightarrow> filter is_release t = [] \<and> AcquireLock \<notin> set t"
  by (auto simp: list_all_iff filter_empty_conv dest: ran_event_is_ran)

lemma filter_release_post: "filter is_release (post_events E tm upd s) = []"
  using post_events_plain[of E tm upd s] by (auto simp: list_all_iff filter_empty_conv)

lemma release_events_held:
  assumes "success l"
  obtains rest where "release_events E (Some l) = ReleaseLock l # rest"
    and "filter is_release rest = []" and "\<forall>q. Ran q \<notin> set rest"
    and "\<forall>e. releaseLock E l = Some e \<longrightarrow> Fatal e \<in> set rest"
  using assms by (cases "releaseLock E l") (auto simp: release_events_def)

lemma takeWhile_no_release:
  "filter is_release t = [] \<Longrightarrow> takeWhile (\<lambda>ev. \<not> is_release ev) (t @ ReleaseLock l # t') = t"
  by (induction t) (auto split: if_splits)

text \<open>The body once both mailboxes are resolved.\<close>

lemma body_reached:
  assumes "refreshSession E = None" and "isOverQuota E 0 = Inr False"
    and "findOne (\<lambda>b. mb_id b = mailboxId) d = Some src"
    and "findOne (\<lambda>b. path b = destination upd) d = Some tm"
    and "guarded E sess src tm upd (init_frame d [RefreshSession, QuotaCheck 0]) = (err, lk, s1)"
  shows "onCopy_body E sess mailboxId upd d =
     (case err of
        Some e \<Rightarrow> (Inl e, db s1, trace s1 @ release_events E lk)
      | None \<Rightarrow>
          (case notify_error E (entries s1) of
             Some e \<Rightarrow> Inl e
           | None \<Rightarrow> Inr (Response (uidValidity tm) (sourceUid s1) (destinationUid s1)),
           db s1, trace s1 @ release_events E lk @ post_events E tm upd s1))"
  using assms
  by (simp add: onCopy_body_def release_eq post_quota_eq update_storage_eq notify_eq
      post_events_def split: option.splits)

lemma body_early:
  assumes "refreshSession E \<noteq> None \<or> isOverQuota E 0 \<noteq> Inr False \<or>
           findOne (\<lambda>b. mb_id b = mailboxId) d = None \<or>
           findOne (\<lambda>b. path b = destination upd) d = None"
    and "onCopy_body E sess mailboxId upd d = (res, d', tr)"
  shows "d' = d \<and> (tr = [RefreshSession] \<or> tr = [RefreshSession, QuotaCheck 0]) \<and>
         (\<exists>e. res = Inl e)"
  using assms
  by (auto simp: onCopy_body_def split: option.splits sum.splits if_splits)

lemma body_Inr:
  assumes "onCopy_body E sess mailboxId upd d = (Inr resp, d', tr)"
  shows "refreshSession E = None \<and> isOverQuota E 0 = Inr False \<and>
         findOne (\<lambda>b. mb_id b = mailboxId) d \<noteq> None \<and>
         findOne (\<lambda>b. path b = destination upd) d \<noteq> None"
  using assms by (auto simp: onCopy_body_def split: option.splits sum.splits if_splits)

section \<open>Every outcome of the handler\<close>

text \<open>What a successful call has done.\<close>

lemma onCopy_ok:
  assumes w: "wsp E = None"
    and src: "findOne (\<lambda>b. mb_id b = mailboxId) d = Some src"
    and tm: "findOne (\<lambda>b. path b = destination upd) d = Some tm"
    and ok: "onCopy E sess mailboxId upd d = (FnOk b resp, d', tr)"
    and ms: "ms = select_messages E src upd d"
  shows "resp = Response (uidValidity tm) (rev (map uid ms))
                  (rev [uidNext tm ..< uidNext tm + length ms])"
    and "ms = [] \<Longrightarrow> d' = d"
    and "ms \<noteq> [] \<Longrightarrow>
           Messages d' =
             map (mark_copied (map m_id ms))
               (Messages d @ new_rows E sess src tm 0 (uidNext tm) ms) \<and>
           Attachments d' = map (bump_all E 0 ms) (Attachments d) \<and>
           Mailboxes d' = map (set_uidNext (mb_id tm) (uidNext tm + length ms)) (Mailboxes d)"
    and "filter is_uidNext_write tr =
           (if ms = [] then [] else [Ran (SetUidNext (mb_id tm) (uidNext tm + length ms))])"
proof -
  let ?s0 = "init_frame d [RefreshSession, QuotaCheck 0]"
  from ok w obtain resp' where body: "onCopy_body E sess mailboxId upd d = (Inr resp', d', tr)"
    and r: "resp = resp'"
    by (auto simp: onCopy_local split: prod.splits sum.splits)
  from body_Inr[OF body] have pre: "refreshSession E = None" "isOverQuota E 0 = Inr False"
    by simp_all
  obtain err lk s1 where g: "guarded E sess src tm upd ?s0 = (err, lk, s1)"
    by (cases "guarded E sess src tm upd ?s0")
  note br = body_reached[OF pre src tm g]
  from br body have e: "err = None" by (auto split: option.splits)
  from br body e have resp': "resp' = Response (uidValidity tm) (sourceUid s1) (destinationUid s1)"
    and d': "d' = db s1" and tr: "tr = trace s1 @ release_events E lk @ post_events E tm upd s1"
    by (auto split: option.splits)
  have ms0: "ms = select_messages E src upd (db ?s0)" using ms by (simp add: init_frame_def)
  note gn = guarded_None[OF g[unfolded e] ms0]
  show "resp = Response (uidValidity tm) (rev (map uid ms))
                  (rev [uidNext tm ..< uidNext tm + length ms])"
    using gn(1,2) r resp' by (simp add: init_frame_def)
  show "ms = [] \<Longrightarrow> d' = d" using gn(5) d' by (simp add: init_frame_def)
  show "ms \<noteq> [] \<Longrightarrow>
           Messages d' =
             map (mark_copied (map m_id ms))
               (Messages d @ new_rows E sess src tm 0 (uidNext tm) ms) \<and>
           Attachments d' = map (bump_all E 0 ms) (Attachments d) \<and>
           Mailboxes d' = map (set_uidNext (mb_id tm) (uidNext tm + length ms)) (Mailboxes d)"
    using gn(6) d' by (simp add: init_frame_def)
  from guarded_trace[OF g] e ms0 obtain t where
    t: "trace s1 = trace ?s0 @ AcquireLock # t"
      "filter is_uidNext_write t =
         (if ms = [] then [] else [Ran (SetUidNext (mb_id tm) (uidNext tm + length ms))])"
    by auto
  have p: "filter is_uidNext_write (post_events E tm upd s1) = []"
    using post_events_plain[of E tm upd s1]
    by (auto simp: filter_empty_conv list_all_iff dest: uidNext_write_ran)
  have q: "filter is_uidNext_write (release_events E lk) = []"
    by (simp add: release_events_def split: option.splits)
  show "filter is_uidNext_write tr =
           (if ms = [] then [] else [Ran (SetUidNext (mb_id tm) (uidNext tm + length ms))])"
    using t p q tr by (simp add: init_frame_def)
qed

lemma onCopy_cases:
  assumes "wsp E = None" and "onCopy E sess mailboxId upd d = (out, d', tr)"
  obtains (early) e where "d' = d"
      and "tr = [RefreshSession] \<or> tr = [RefreshSession, QuotaCheck 0]"
      and "out = FnError (refineAndLogError E e)"
  | (failed) src tm e lk s1 where
      "guarded E sess src tm upd (init_frame d [RefreshSession, QuotaCheck 0]) = (Some e, lk, s1)"
      and "d' = d" and "tr = trace s1 @ release_events E lk"
      and "out = FnError (refineAndLogError E e)"
  | (committed) src tm lk s1 where
      "findOne (\<lambda>b. mb_id b = mailboxId) d = Some src"
      and "findOne (\<lambda>b. path b = destination upd) d = Some tm"
      and "guarded E sess src tm upd (init_frame d [RefreshSession, QuotaCheck 0]) = (None, lk, s1)"
      and "d' = db s1" and "tr = trace s1 @ release_events E lk @ post_events E tm upd s1"
      and "out = (case notify_error E (entries s1) of
                    Some e \<Rightarrow> FnError (refineAndLogError E e)
                  | None \<Rightarrow> FnOk True (Response (uidValidity tm) (sourceUid s1)
                                        (destinationUid s1)))"
proof -
  obtain res where body: "onCopy_body E sess mailboxId upd d = (res, d', tr)"
    and out: "out = (case res of Inl e \<Rightarrow> FnError (refineAndLogError E e)
                               | Inr resp \<Rightarrow> FnOk True resp)"
    using assms by (auto simp: onCopy_local split: prod.splits sum.splits)
  show ?thesis
  proof (cases "refreshSession E \<noteq> None \<or> isOverQuota E 0 \<noteq> Inr False \<or>
           findOne (\<lambda>b. mb_id b = mailboxId) d = None \<or>
           findOne (\<lambda>b. path b = destination upd) d = None")
    case True
    from body_early[OF True body] out show ?thesis by (auto intro: early)
  next
    case False
    then obtain src tm where pre: "refreshSession E = None" "isOverQuota E 0 = Inr False"
      "findOne (\<lambda>b. mb_id b = mailboxId) d = Some src"
      "findOne (\<lambda>b. path b = destination upd) d = Some tm"
      by auto
    let ?s0 = "init_frame d [RefreshSession, QuotaCheck 0]"
    obtain err lk s1 where g: "guarded E sess src tm upd ?s0 = (err, lk, s1)"
      by (cases "guarded E sess src tm upd ?s0")
    note br = body_reached[OF pre g]
    show ?thesis
    proof (cases err)
      case None
      with br body out g pre show ?thesis
        by (intro committed[of src tm lk s1]) (auto split: option.splits)
    next
      case (Some e)
      from guarded_Some[OF g[unfolded Some]] have "db s1 = d" by (simp add: init_frame_def)
      with Some br body out g show ?thesis
        by (intro failed[of src tm e lk s1]) auto
    qed
  qed
qed

text \<open>A statement that was run and threw decides the outcome.\<close>

lemma fault_raised:
  assumes w: "wsp E = None" and run: "onCopy E sess mailboxId upd d = (out, d', tr)"
    and q: "Ran q \<in> set tr" and f: "faults E q = Some e"
  shows "d' = d \<and> out = FnError (refineAndLogError E e) \<and>
         (\<exists>t lk. tr = t @ release_events E lk \<and> Ran q \<in> set t)"
  using w run
proof (cases rule: onCopy_cases)
  case (early e)
  with q show ?thesis by auto
next
  case (failed src tm e' lk s1)
  from guarded_trace_plain[OF failed(1)] obtain t where
    t: "trace s1 = [RefreshSession, QuotaCheck 0, AcquireLock] @ t" "list_all (ran_event E (Some e')) t"
    by blast
  from q failed(3) have qs: "Ran q \<in> set (trace s1)" by (simp add: release_events_no_ran)
  with t have "Ran q \<in> set t" by simp
  with t(2) have "ran_event E (Some e') (Ran q)" by (auto simp: list_all_iff)
  with f have "e' = e" by simp
  with failed qs show ?thesis by blast
next
  case (committed src tm lk s1)
  from guarded_trace_plain[OF committed(3)] obtain t where
    t: "trace s1 = [RefreshSession, QuotaCheck 0, AcquireLock] @ t" "list_all (ran_event E None) t"
    by blast
  from q committed(5) have "Ran q \<in> set (trace s1)"
    by (simp add: release_events_no_ran post_events_no_ran)
  with t have "Ran q \<in> set t" by simp
  with t(2) have "ran_event E None (Ran q)" by (auto simp: list_all_iff)
  with f show ?thesis by simp
qed

section \<open>The inserted rows and the attachment rows\<close>

lemma length_new_rows [simp]: "length (new_rows E sess src tm k u ms) = length ms"
  by (induction ms arbitrary: k u) simp_all

lemma new_rows_mimeTree [simp]:
  "map mimeTree (new_rows E sess src tm k u ms) = map mimeTree ms"
  by (induction ms arbitrary: k u) simp_all

lemma new_rows_fields:
  "m \<in> set (new_rows E sess src tm k u ms) \<Longrightarrow>
     mailbox m = mb_id tm \<and>
     exp_flag m = (if (case retention tm of Some r \<Rightarrow> r \<noteq> 0 | None \<Rightarrow> False) then 1 else 0)"
  by (induction ms arbitrary: k u) (auto simp: rewrite_def)

lemma new_rows_nth:
  "k < length ms \<Longrightarrow>
     new_rows E sess src tm k0 u ms ! k = rewrite E sess src tm (k0 + k) (u + k) (ms ! k)"
proof (induction ms arbitrary: k k0 u)
  case Nil
  then show ?case by simp
next
  case (Cons m ms)
  then show ?case by (cases k) simp_all
qed

lemma mark_copied_sel [simp]:
  "mimeTree (mark_copied ids m) = mimeTree m"
  "magic (mark_copied ids m) = magic m"
  "mailbox (mark_copied ids m) = mailbox m"
  "exp_flag (mark_copied ids m) = exp_flag m"
  "uid (mark_copied ids m) = uid m"
  "size_bytes (mark_copied ids m) = size_bytes m"
  by (simp_all add: mark_copied_def)

lemma find_map_same:
  "(\<And>x. P (f x) = P x) \<Longrightarrow> find P (map f xs) = map_option f (find P xs)"
  by (induction xs) simp_all

lemma rev_upt_order:
  fixes xs :: "nat list"
  assumes s: "sorted xs" and i: "i < length xs" and j: "j < length xs"
    and lt: "rev xs ! i < rev xs ! j"
  shows "rev [u ..< u + length xs] ! i < rev [u ..< u + length xs] ! j"
proof -
  let ?n = "length xs"
  from i j lt have lt': "xs ! (?n - Suc i) < xs ! (?n - Suc j)" by (simp add: rev_nth)
  have "?n - Suc i < ?n - Suc j"
  proof (rule ccontr)
    assume "\<not> ?n - Suc i < ?n - Suc j"
    then have "?n - Suc j \<le> ?n - Suc i" by simp
    moreover have "?n - Suc i < ?n" using i by simp
    ultimately have "xs ! (?n - Suc j) \<le> xs ! (?n - Suc i)"
      using s by (simp add: sorted_nth_mono)
    with lt' show False by simp
  qed
  with i j show ?thesis by (simp add: rev_nth)
qed

lemma bump_all_hash [simp]: "hash (bump_all E k ms a) = hash a"
  by (induction ms arbitrary: a k) simp_all

lemma bump_all_counter:
  "counter (bump_all E k ms a) = counter a + int (length (referencing E (hash a) ms))"
  by (induction ms arbitrary: a k) (simp_all add: referencing_def)

lemma bump_all_magic:
  "att_magic (bump_all E k ms a) = att_magic a + sum_list (map magic (referencing E (hash a) ms))"
  by (induction ms arbitrary: a k) (simp_all add: referencing_def)

lemma bump_all_unreferenced:
  "referencing E (hash a) ms = [] \<Longrightarrow> bump_all E k ms a = a"
  by (induction ms arbitrary: a k) (auto simp: referencing_def split: if_splits)

lemma bump_all_stamp:
  "referencing E (hash a) ms \<noteq> [] \<Longrightarrow>
     counterUpdated (bump_all E k ms a) \<in> newDate E ` {k ..< k + length ms}"
proof (induction ms arbitrary: a k)
  case Nil
  then show ?case by (simp add: referencing_def)
next
  case (Cons m ms)
  let ?a' = "if hash a \<in> set (getAttachments E (mimeTree m))
        then a\<lparr>counter := counter a + 1, att_magic := att_magic a + magic m,
               counterUpdated := newDate E k\<rparr> else a"
  have h: "hash ?a' = hash a" by simp
  show ?case
  proof (cases "referencing E (hash a) ms = []")
    case True
    with Cons.prems have in_m: "hash a \<in> set (getAttachments E (mimeTree m))"
      by (auto simp: referencing_def split: if_splits)
    from True h have "bump_all E (k + 1) ms ?a' = ?a'"
      by (intro bump_all_unreferenced) simp
    with in_m show ?thesis by simp
  next
    case False
    with h have "referencing E (hash ?a') ms \<noteq> []" by simp
    from Cons.IH[OF this, of "k + 1"]
    have "counterUpdated (bump_all E (k + 1) ms ?a') \<in> newDate E ` {k + 1 ..< k + 1 + length ms}" .
    then show ?thesis by auto
  qed
qed

lemma referencing_inserted:
  "map magic (referencing E h (map (mark_copied ids) (new_rows E sess src tm k u ms))) =
     map magic (referencing E h ms)"
  by (induction ms arbitrary: k u) (simp_all add: referencing_def)

lemma referencing_inserted_length:
  "length (referencing E h (map (mark_copied ids) (new_rows E sess src tm k u ms))) =
     length (referencing E h ms)"
  using referencing_inserted[of E h ids sess src tm k u ms, THEN arg_cong[of _ _ length]]
  by simp

section \<open>The outcome of the release does not matter\<close>

lemma run_release_cong: "run (E\<lparr>releaseLock := rl\<rparr>) q s = run E q s"
  by (simp add: run_def)

lemma rewrite_release_cong:
  "rewrite (E\<lparr>releaseLock := rl\<rparr>) sess src tm k u m = rewrite E sess src tm k u m"
  by (simp add: rewrite_def)

lemma copy_one_release_cong:
  "copy_one (E\<lparr>releaseLock := rl\<rparr>) sess src tm m s = copy_one E sess src tm m s"
  by (simp add: copy_one_def run_release_cong rewrite_release_cong Let_def
      cong: prod.case_cong option.case_cong if_cong)

lemma copy_messages_release_cong:
  "copy_messages (E\<lparr>releaseLock := rl\<rparr>) sess src tm ms s = copy_messages E sess src tm ms s"
  by (induction ms arbitrary: s)
    (simp_all add: copy_one_release_cong cong: prod.case_cong option.case_cong)

lemma guarded_release_cong:
  "guarded (E\<lparr>releaseLock := rl\<rparr>) sess src tm upd s = guarded E sess src tm upd s"
proof -
  have "batch (E\<lparr>releaseLock := rl\<rparr>) sess src tm ms = batch E sess src tm ms" for ms
    by (rule ext)
      (simp add: batch_def copy_messages_release_cong run_release_cong
        cong: prod.case_cong option.case_cong)
  then show ?thesis
    by (simp add: guarded_def select_messages_def Let_def
        cong: sum.case_cong option.case_cong if_cong)
qed

lemma body_release_irrelevant:
  "fst (onCopy_body (E\<lparr>releaseLock := rl\<rparr>) sess mailboxId upd d) =
     fst (onCopy_body E sess mailboxId upd d) \<and>
   fst (snd (onCopy_body (E\<lparr>releaseLock := rl\<rparr>) sess mailboxId upd d)) =
     fst (snd (onCopy_body E sess mailboxId upd d))"
proof (cases "refreshSession E \<noteq> None \<or> isOverQuota E 0 \<noteq> Inr False \<or>
           findOne (\<lambda>b. mb_id b = mailboxId) d = None \<or>
           findOne (\<lambda>b. path b = destination upd) d = None")
  case True
  then show ?thesis
    by (auto simp: onCopy_body_def split: option.splits sum.splits)
next
  case False
  let ?E' = "E\<lparr>releaseLock := rl\<rparr>"
  from False obtain src tm where pre: "refreshSession E = None" "isOverQuota E 0 = Inr False"
    "findOne (\<lambda>b. mb_id b = mailboxId) d = Some src"
    "findOne (\<lambda>b. path b = destination upd) d = Some tm"
    by auto
  then have pre': "refreshSession ?E' = None" "isOverQuota ?E' 0 = Inr False" by simp_all
  let ?s0 = "init_frame d [RefreshSession, QuotaCheck 0]"
  obtain err lk s1 where g: "guarded E sess src tm upd ?s0 = (err, lk, s1)"
    by (cases "guarded E sess src tm upd ?s0")
  then have g': "guarded ?E' sess src tm upd ?s0 = (err, lk, s1)"
    by (simp add: guarded_release_cong)
  show ?thesis
    unfolding body_reached[OF pre g] body_reached[OF pre' pre(3,4) g']
    by (simp add: notify_error_def split: option.splits)
qed

lemma release_outcome_irrelevant:
  "fst (onCopy (E\<lparr>releaseLock := rl\<rparr>) sess mailboxId upd d) = fst (onCopy E sess mailboxId upd d) \<and>
   fst (snd (onCopy (E\<lparr>releaseLock := rl\<rparr>) sess mailboxId upd d)) =
     fst (snd (onCopy E sess mailboxId upd d))"
  using body_release_irrelevant[where E=E and rl=rl and sess=sess and mailboxId=mailboxId
      and upd=upd and d=d]
  by (auto simp: onCopy_def split: option.splits sum.splits prod.splits)

section \<open>The concrete account, evaluated\<close>

lemma triple_collapse: "x = (fst x, fst (snd x), snd (snd x))"
  by simp

lemma example_mailboxes:
  "wsp env0 = None"
  "findOne (\<lambda>b. mb_id b = ''A'') db0 =
     Some \<lparr>mb_id = ''A'', path = ''INBOX'', uidNext = 10, uidValidity = 7, modifyIndex = 4,
          retention = None, specialUse = ''''\<rparr>"
  "findOne (\<lambda>b. path b = destination upd0) db0 =
     Some \<lparr>mb_id = ''B'', path = ''Archive'', uidNext = 100, uidValidity = 1, modifyIndex = 2,
          retention = Some 0, specialUse = ''''\<rparr>"
  by (simp_all add: env0_def findOne_def db0_def upd0_def)

lemma example_mailboxes1:
  "wsp env0 = None"
  "findOne (\<lambda>b. mb_id b = ''A'') db1 =
     Some \<lparr>mb_id = ''A'', path = ''INBOX'', uidNext = 10, uidValidity = 7, modifyIndex = 4,
          retention = None, specialUse = ''''\<rparr>"
  "findOne (\<lambda>b. path b = destination upd0) db1 =
     Some \<lparr>mb_id = ''B'', path = ''Archive'', uidNext = 100, uidValidity = 1, modifyIndex = 2,
          retention = Some 86400000, specialUse = ''''\<rparr>"
  by (simp_all add: env0_def findOne_def db0_def db1_def upd0_def)

lemma example_copy:
  "fst (onCopy env0 sess0 ''A'' upd0 db0) = FnOk True (Response 1 [9, 7, 5] [102, 101, 100])"
  by (simp add: onCopy_def onCopy_body_def env0_def db0_def sess0_def upd0_def msg0_def findOne_def
      guarded_def init_frame_def select_messages_def transaction_immediate_def batch_def
      copy_one_def run_def rewrite_def release_def post_quota_def update_storage_def notify_def
      Let_def)

lemma example_triple:
  "onCopy env0 sess0 ''A'' upd0 db0 =
     (FnOk True (Response 1 [9, 7, 5] [102, 101, 100]),
      fst (snd (onCopy env0 sess0 ''A'' upd0 db0)), snd (snd (onCopy env0 sess0 ''A'' upd0 db0)))"
  using example_copy by (metis prod.collapse)

lemma example_copy1:
  "fst (onCopy env0 sess0 ''A'' upd0 db1) = FnOk True (Response 1 [9, 7, 5] [102, 101, 100])"
  by (simp add: onCopy_def onCopy_body_def env0_def db0_def db1_def sess0_def upd0_def msg0_def
      findOne_def guarded_def init_frame_def select_messages_def transaction_immediate_def
      batch_def copy_one_def run_def rewrite_def release_def post_quota_def update_storage_def
      notify_def Let_def)

lemma example_triple1:
  "onCopy env0 sess0 ''A'' upd0 db1 =
     (FnOk True (Response 1 [9, 7, 5] [102, 101, 100]),
      fst (snd (onCopy env0 sess0 ''A'' upd0 db1)), snd (snd (onCopy env0 sess0 ''A'' upd0 db1)))"
  using example_copy1 by (metis prod.collapse)

lemma example_uids:
  "map uid (select_messages env0
      \<lparr>mb_id = ''A'', path = ''INBOX'', uidNext = 10, uidValidity = 7, modifyIndex = 4,
          retention = None, specialUse = ''''\<rparr> upd0 db0) = [5, 7, 9]"
  "map uid (drop (length (Messages db0)) (Messages (fst (snd (onCopy env0 sess0 ''A'' upd0 db0))))) =
     [100, 101, 102]"
  by (simp_all add: onCopy_def onCopy_body_def env0_def db0_def sess0_def upd0_def msg0_def
      findOne_def guarded_def init_frame_def select_messages_def transaction_immediate_def
      batch_def copy_one_def run_def rewrite_def release_def post_quota_def update_storage_def
      notify_def Let_def)

lemma example_exp_flags:
  "map exp_flag (drop 3 (Messages (fst (snd (onCopy env0 sess0 ''A'' upd0 db1))))) = [1, 1, 1]"
  "map exp_flag (drop 3 (Messages (fst (snd (onCopy env0 sess0 ''A'' upd0 db0))))) = [0, 0, 0]"
  by (simp_all add: onCopy_def onCopy_body_def env0_def db0_def db1_def sess0_def upd0_def msg0_def
      findOne_def guarded_def init_frame_def select_messages_def transaction_immediate_def
      batch_def copy_one_def run_def rewrite_def release_def post_quota_def update_storage_def
      notify_def Let_def)

lemma example_negative:
  "fst (onCopy env0 sess0 ''A'' upd0 db2) = FnOk True (Response 1 [9, 7, 5] [102, 101, 100])"
  "map exp_flag (drop 3 (Messages (fst (snd (onCopy env0 sess0 ''A'' upd0 db2))))) = [1, 1, 1]"
  by (simp_all add: onCopy_def onCopy_body_def env0_def db0_def db2_def sess0_def upd0_def msg0_def
      findOne_def guarded_def init_frame_def select_messages_def transaction_immediate_def
      batch_def copy_one_def run_def rewrite_def release_def post_quota_def update_storage_def
      notify_def Let_def)

lemma example_counters:
  "map counter (Attachments db0) = [1, 1, 4]"
  "map counter (Attachments (fst (snd (onCopy env0 sess0 ''A'' upd0 db0)))) = [3, 2, 4]"
  "map att_magic (Attachments (fst (snd (onCopy env0 sess0 ''A'' upd0 db0)))) = [9, 6, 9]"
  "map (\<lambda>a. length (referencing env0 (hash a)
          (drop (length (Messages db0)) (Messages (fst (snd (onCopy env0 sess0 ''A'' upd0 db0)))))))
     (Attachments db0) = [2, 1, 0]"
  by (simp_all add: onCopy_def onCopy_body_def env0_def db0_def sess0_def upd0_def msg0_def
      findOne_def guarded_def init_frame_def select_messages_def transaction_immediate_def
      batch_def copy_one_def run_def rewrite_def release_def post_quota_def update_storage_def
      notify_def Let_def referencing_def)

lemma example_fault:
  "fst (onCopy envF sess0 ''A'' upd0 db0) = FnError (Error ''SQLITE_FULL'' None)"
  "Ran (SetUidNext ''B'' 103) \<in> set (snd (snd (onCopy envF sess0 ''A'' upd0 db0)))"
  "Ran (SetCopied [''m5'', ''m7'', ''m9'']) \<in> set (snd (snd (onCopy envF sess0 ''A'' upd0 db0)))"
  "filter is_release (snd (snd (onCopy envF sess0 ''A'' upd0 db0))) =
     [ReleaseLock \<lparr>success = True, lock_id = ''L''\<rparr>]"
  by (simp_all add: onCopy_def onCopy_body_def envF_def env0_def db0_def sess0_def upd0_def msg0_def
      findOne_def guarded_def init_frame_def select_messages_def transaction_immediate_def
      batch_def copy_one_def run_def rewrite_def release_def post_quota_def update_storage_def
      notify_def Let_def)

lemma example_release:
  "fst (onCopy envR sess0 ''A'' upd0 db0) = FnOk True (Response 1 [9, 7, 5] [102, 101, 100])"
  "AcquireLock \<in> set (snd (snd (onCopy envR sess0 ''A'' upd0 db0)))"
  by (simp_all add: onCopy_def onCopy_body_def envR_def env0_def db0_def sess0_def upd0_def msg0_def
      findOne_def guarded_def init_frame_def select_messages_def transaction_immediate_def
      batch_def copy_one_def run_def rewrite_def release_def post_quota_def update_storage_def
      notify_def Let_def)

section \<open>The UID arrays of the response\<close>

text \<open>
  Claim C1 says that the response lists the source UIDs in ascending order with the destination
  UIDs as the parallel increasing sequence, \<open>[5,7,9]\<close> and \<open>[100,101,102]\<close> for the
  concrete account. The handler prepends to both arrays (\<open>unshift\<close>, lines 162 and 164)
  while it reads the rows in ascending order, so on that account the response carries
  \<open>[9,7,5]\<close> and \<open>[102,101,100]\<close>.
\<close>

theorem copy_uid_arrays_ascending_counterexample:
  "fst (onCopy env0 sess0 ''A'' upd0 db0) = FnOk True (Response 1 [9, 7, 5] [102, 101, 100]) \<and>
   fst (onCopy env0 sess0 ''A'' upd0 db0) \<noteq> FnOk True (Response 1 [5, 7, 9] [100, 101, 102])"
  using example_copy by simp

text \<open>
  Claim C1, as the handler has it. For every successful COPY the \<open>sourceUid\<close> array of the
  response is the reverse of the UIDs of the selected rows, which are read in ascending order:
  it lists them in descending order. The \<open>destinationUid\<close> array is the parallel sequence
  \<open>uidNext + n - 1\<close> down to \<open>uidNext\<close>: strictly decreasing, of the same length.
\<close>

theorem copy_uid_arrays_descending:
  assumes "wsp E = None"
    and "findOne (\<lambda>b. mb_id b = mailboxId) d = Some src"
    and "findOne (\<lambda>b. path b = destination upd) d = Some tm"
    and "onCopy E sess mailboxId upd d = (FnOk b resp, d', tr)"
  shows "rev (sourceUid_r resp) = map uid (select_messages E src upd d) \<and>
         sorted (rev (sourceUid_r resp)) \<and>
         rev (destinationUid_r resp) =
           [uidNext tm ..< uidNext tm + length (sourceUid_r resp)] \<and>
         sorted_wrt (\<lambda>x y. x > y) (destinationUid_r resp) \<and>
         length (destinationUid_r resp) = length (sourceUid_r resp)"
proof -
  note r = onCopy_ok(1)[OF assms refl]
  have "sorted_wrt (\<lambda>x y. x > y)
          (rev [uidNext tm ..< uidNext tm + length (select_messages E src upd d)])"
    by (simp add: sorted_wrt_rev)
  then show ?thesis using r by (simp add: select_messages_def)
qed

theorem copy_uid_arrays_descending_witness:
  "wsp env0 = None \<and>
   fst (onCopy env0 sess0 ''A'' upd0 db0) = FnOk True (Response 1 [9, 7, 5] [102, 101, 100]) \<and>
   rev [9, 7, 5] = map uid (select_messages env0
      \<lparr>mb_id = ''A'', path = ''INBOX'', uidNext = 10, uidValidity = 7, modifyIndex = 4,
          retention = None, specialUse = ''''\<rparr> upd0 db0) \<and>
   sorted (rev [9, 7, 5 :: nat]) \<and> rev [102, 101, 100] = [100 ..< 100 + length [9, 7, 5 :: nat]]"
  using copy_uid_arrays_descending[OF example_mailboxes example_triple] example_copy
    example_mailboxes(1)
  by (simp add: select_messages_def env0_def db0_def upd0_def msg0_def)

section \<open>Atomicity of the batch\<close>

text \<open>
  Claim C2. If any statement that the COPY runs throws (the insert of a row, an attachment
  update, the marking of the source rows, the write of \<open>uidNext\<close>, or the select before
  them), then the storage afterwards is the storage before the call, and \<open>fn\<close> receives
  that error.
\<close>

theorem failed_statement_leaves_storage:
  assumes "wsp E = None" and "onCopy E sess mailboxId upd d = (out, d', tr)"
    and "Ran q \<in> set tr" and "faults E q = Some e"
  shows "d' = d \<and> out = FnError (refineAndLogError E e)"
  using fault_raised[OF assms] by simp

theorem failed_statement_leaves_storage_witness:
  "wsp envF = None \<and>
   faults envF (SetUidNext ''B'' 103) = Some (Error ''SQLITE_FULL'' None) \<and>
   Ran (SetCopied [''m5'', ''m7'', ''m9'']) \<in> set (snd (snd (onCopy envF sess0 ''A'' upd0 db0))) \<and>
   Ran (SetUidNext ''B'' 103) \<in> set (snd (snd (onCopy envF sess0 ''A'' upd0 db0))) \<and>
   fst (snd (onCopy envF sess0 ''A'' upd0 db0)) = db0 \<and>
   fst (onCopy envF sess0 ''A'' upd0 db0) = FnError (Error ''SQLITE_FULL'' None)"
proof -
  have h: "wsp envF = None"
    "faults envF (SetUidNext ''B'' 103) = Some (Error ''SQLITE_FULL'' None)"
    "refineAndLogError envF = (\<lambda>e. e)"
    by (simp_all add: envF_def env0_def)
  show ?thesis
    using failed_statement_leaves_storage[OF h(1) triple_collapse example_fault(2) h(2)]
      h example_fault
    by simp
qed

section \<open>The counter of the destination mailbox\<close>

text \<open>
  Claim C3. After a successful COPY the \<open>uidNext\<close> stored for the destination mailbox is its
  value before plus the number of copied messages (the length of \<open>destinationUid\<close>, which is
  also the number of rows added to \<open>Messages\<close>). Among all statements run, the write of
  \<open>uidNext\<close> occurs exactly once when a batch ran, with that final value, and not at all when
  no row was selected and so no batch ran.
\<close>

theorem uidNext_persisted_once:
  assumes "wsp E = None"
    and "findOne (\<lambda>b. mb_id b = mailboxId) d = Some src"
    and "findOne (\<lambda>b. path b = destination upd) d = Some tm"
    and "onCopy E sess mailboxId upd d = (FnOk b resp, d', tr)"
  shows "map_option uidNext (findOne (\<lambda>b. path b = destination upd) d') =
           Some (uidNext tm + length (destinationUid_r resp)) \<and>
         length (Messages d') = length (Messages d) + length (destinationUid_r resp) \<and>
         filter is_uidNext_write tr =
           (if destinationUid_r resp = [] then []
            else [Ran (SetUidNext (mb_id tm) (uidNext tm + length (destinationUid_r resp)))])"
proof -
  let ?ms = "select_messages E src upd d"
  note ok = onCopy_ok[OF assms refl]
  have n: "length (destinationUid_r resp) = length ?ms" "destinationUid_r resp = [] \<longleftrightarrow> ?ms = []"
    using ok(1) by auto
  show ?thesis
  proof (cases "?ms = []")
    case True
    with ok(2) have "d' = d" by simp
    with True n ok(4) assms(3) show ?thesis by simp
  next
    case False
    from ok(3)[OF False]
    have mb: "Mailboxes d' = map (set_uidNext (mb_id tm) (uidNext tm + length ?ms)) (Mailboxes d)"
      and ms: "length (Messages d') = length (Messages d) + length ?ms"
      by simp_all
    have "findOne (\<lambda>b. path b = destination upd) d' =
            map_option (set_uidNext (mb_id tm) (uidNext tm + length ?ms))
              (findOne (\<lambda>b. path b = destination upd) d)"
      unfolding findOne_def mb by (rule find_map_same) (simp add: set_uidNext_def)
    with assms(3) have "map_option uidNext (findOne (\<lambda>b. path b = destination upd) d') =
        Some (uidNext tm + length ?ms)"
      by (simp add: set_uidNext_def)
    with ms n ok(4) False show ?thesis by simp
  qed
qed

theorem uidNext_persisted_once_witness:
  "wsp env0 = None \<and>
   fst (onCopy env0 sess0 ''A'' upd0 db0) = FnOk True (Response 1 [9, 7, 5] [102, 101, 100]) \<and>
   map_option uidNext
     (findOne (\<lambda>b. path b = ''Archive'') (fst (snd (onCopy env0 sess0 ''A'' upd0 db0)))) = Some 103 \<and>
   length (Messages (fst (snd (onCopy env0 sess0 ''A'' upd0 db0)))) = 6 \<and>
   filter is_uidNext_write (snd (snd (onCopy env0 sess0 ''A'' upd0 db0))) =
     [Ran (SetUidNext ''B'' 103)]"
  using uidNext_persisted_once[OF example_mailboxes example_triple] example_copy
    example_mailboxes(1)
  by (simp add: upd0_def db0_def)

section \<open>Order of the assigned UIDs\<close>

text \<open>
  Claim C4. The rows are read sorted by ascending UID and the counter advances once per
  row, so the assignment preserves order. The \<open>k\<close>-th row that the COPY adds to \<open>Messages\<close>
  is the copy of the \<open>k\<close>-th selected row (same body tree, size and magic value), stored in
  the destination mailbox with the UID \<open>uidNext + k\<close>; so for two source rows with UIDs
  \<open>a < b\<close> the UID stored on the copy of the first is less than the UID stored on the copy of
  the second. The response reports exactly these stored UIDs, and whenever two of its
  positions hold source UIDs \<open>a < b\<close>, the destination UID at the position of \<open>a\<close> is less
  than the one at the position of \<open>b\<close>.
\<close>

theorem uid_assignment_order_preserving:
  assumes "wsp E = None"
    and "findOne (\<lambda>b. mb_id b = mailboxId) d = Some src"
    and "findOne (\<lambda>b. path b = destination upd) d = Some tm"
    and "onCopy E sess mailboxId upd d = (FnOk b resp, d', tr)"
    and "ms = select_messages E src upd d"
    and "ins = drop (length (Messages d)) (Messages d')"
  shows "sorted (map uid ms) \<and>
         length ins = length ms \<and>
         map uid ins = [uidNext tm ..< uidNext tm + length ms] \<and>
         (\<forall>k < length ms.
            uid (ins ! k) = uidNext tm + k \<and> mailbox (ins ! k) = mb_id tm \<and>
            mimeTree (ins ! k) = mimeTree (ms ! k) \<and> size_bytes (ins ! k) = size_bytes (ms ! k) \<and>
            magic (ins ! k) = magic (ms ! k)) \<and>
         (\<forall>i j. i < length ms \<and> j < length ms \<and> uid (ms ! i) < uid (ms ! j) \<longrightarrow>
                uid (ins ! i) < uid (ins ! j)) \<and>
         sourceUid_r resp = rev (map uid ms) \<and>
         destinationUid_r resp = rev (map uid ins) \<and>
         length (destinationUid_r resp) = length (sourceUid_r resp) \<and>
         (\<forall>i j. i < length (sourceUid_r resp) \<and> j < length (sourceUid_r resp) \<and>
                sourceUid_r resp ! i < sourceUid_r resp ! j \<longrightarrow>
                destinationUid_r resp ! i < destinationUid_r resp ! j)"
proof -
  let ?xs = "map uid ms"
  let ?n = "length ms"
  let ?u = "uidNext tm"
  note ok = onCopy_ok[OF assms(1-5)]
  have r: "resp = Response (uidValidity tm) (rev ?xs) (rev [?u ..< ?u + ?n])"
    using ok(1) by simp
  have s: "sorted ?xs" by (simp add: assms(5) select_messages_def)
  have resp_order: "rev [?u ..< ?u + ?n] ! i < rev [?u ..< ?u + ?n] ! j"
    if "i < ?n" "j < ?n" "rev ?xs ! i < rev ?xs ! j" for i j
    using rev_upt_order[OF s, of i j ?u] that by simp
  have rows: "ins = map (mark_copied (map m_id ms)) (new_rows E sess src tm 0 ?u ms)"
  proof (cases "ms = []")
    case True
    with ok(2) assms(6) show ?thesis by simp
  next
    case False
    from ok(3)[OF False] assms(6) show ?thesis by simp
  qed
  have len: "length ins = ?n" by (simp add: rows)
  have nth: "ins ! k = mark_copied (map m_id ms) (rewrite E sess src tm k (?u + k) (ms ! k))"
    if "k < ?n" for k
    using that new_rows_nth[of k ms E sess src tm 0 ?u] by (simp add: rows)
  have fields: "uid (ins ! k) = ?u + k \<and> mailbox (ins ! k) = mb_id tm \<and>
      mimeTree (ins ! k) = mimeTree (ms ! k) \<and> size_bytes (ins ! k) = size_bytes (ms ! k) \<and>
      magic (ins ! k) = magic (ms ! k)"
    if "k < ?n" for k
    by (simp add: nth[OF that])
  have uids: "map uid ins = [?u ..< ?u + ?n]"
    by (rule nth_equalityI) (simp_all add: len fields)
  have row_order: "uid (ins ! i) < uid (ins ! j)"
    if "i < ?n" "j < ?n" "uid (ms ! i) < uid (ms ! j)" for i j
  proof -
    have "i < j"
    proof (rule ccontr)
      assume "\<not> i < j"
      then have "j \<le> i" by simp
      with s that(1) have "?xs ! j \<le> ?xs ! i" by (intro sorted_nth_mono) simp_all
      with that \<open>j \<le> i\<close> show False by simp
    qed
    with that(1,2) show ?thesis by (simp add: fields)
  qed
  from r uids have "destinationUid_r resp = rev (map uid ins)" by simp
  with r s len uids fields row_order resp_order show ?thesis by simp
qed

theorem uid_assignment_order_preserving_witness:
  "wsp env0 = None \<and>
   fst (onCopy env0 sess0 ''A'' upd0 db0) = FnOk True (Response 1 [9, 7, 5] [102, 101, 100]) \<and>
   map uid (select_messages env0
      \<lparr>mb_id = ''A'', path = ''INBOX'', uidNext = 10, uidValidity = 7, modifyIndex = 4,
          retention = None, specialUse = ''''\<rparr> upd0 db0) = [5, 7, 9] \<and>
   map uid (drop (length (Messages db0)) (Messages (fst (snd (onCopy env0 sess0 ''A'' upd0 db0))))) =
     [100, 101, 102] \<and>
   [102, 101, 100] = rev [100, 101, 102 :: nat] \<and>
   [9, 7, 5 :: nat] ! 2 < [9, 7, 5] ! 0 \<and> [102, 101, 100 :: nat] ! 2 < [102, 101, 100] ! 0"
proof -
  let ?ms = "select_messages env0
      \<lparr>mb_id = ''A'', path = ''INBOX'', uidNext = 10, uidValidity = 7, modifyIndex = 4,
          retention = None, specialUse = ''''\<rparr> upd0 db0"
  let ?ins = "drop (length (Messages db0)) (Messages (fst (snd (onCopy env0 sess0 ''A'' upd0 db0))))"
  note t = uid_assignment_order_preserving[OF example_mailboxes example_triple refl refl]
  from t have u: "map uid ?ins = [100 ..< 100 + length ?ms]" by simp
  have "length (map uid ?ms) = 3" by (simp only: example_uids(1)) simp
  then have "length ?ms = 3" by simp
  with u have "map uid ?ins = [100, 101, 102]" by (simp add: upt_rec)
  then show ?thesis using example_copy example_mailboxes(1) example_uids(1) by simp
qed

section \<open>Attachment counters\<close>

text \<open>
  Claim C5. Whatever the outcome of the call, each attachment row keeps its hash, its counter
  has grown by the number of message rows added by the call whose body tree references the
  hash (one per row, however often the row references it), and its magic value by the sum of
  those rows' magic values; a row that no added message references is unchanged, and a
  referenced one carries a timestamp read during the call. Since this holds for the failed
  call too, where no row is added, inserts and increments become visible together or not at all.
  On success the added rows are as many as the UIDs reported.
\<close>

theorem attachment_counters_follow_inserted_rows:
  assumes w: "wsp E = None" and run: "onCopy E sess mailboxId upd d = (out, d', tr)"
    and ins: "ins = drop (length (Messages d)) (Messages d')"
  shows "map hash (Attachments d') = map hash (Attachments d) \<and>
         map counter (Attachments d') =
           map (\<lambda>a. counter a + int (length (referencing E (hash a) ins))) (Attachments d) \<and>
         map att_magic (Attachments d') =
           map (\<lambda>a. att_magic a + sum_list (map magic (referencing E (hash a) ins)))
             (Attachments d) \<and>
         length (Attachments d') = length (Attachments d) \<and>
         (\<forall>i < length (Attachments d).
            (referencing E (hash (Attachments d ! i)) ins = [] \<longrightarrow>
               Attachments d' ! i = Attachments d ! i) \<and>
            (referencing E (hash (Attachments d ! i)) ins \<noteq> [] \<longrightarrow>
               counterUpdated (Attachments d' ! i) \<in> newDate E ` {..< length ins})) \<and>
         (\<forall>b resp. out = FnOk b resp \<longrightarrow> length ins = length (destinationUid_r resp)) \<and>
         (\<forall>q e. Ran q \<in> set tr \<and> faults E q = Some e \<longrightarrow>
            ins = [] \<and> Attachments d' = Attachments d)"
proof -
  have flt: "\<forall>q e. Ran q \<in> set tr \<and> faults E q = Some e \<longrightarrow>
            ins = [] \<and> Attachments d' = Attachments d"
    using fault_raised[OF w run] ins by auto
  have unchanged: ?thesis if "d' = d" "\<forall>b resp. out = FnOk b resp \<longrightarrow> destinationUid_r resp = []"
    using that ins flt by (simp add: referencing_def)
  from w run show ?thesis
  proof (cases rule: onCopy_cases)
    case (early e)
    then show ?thesis by (intro unchanged) auto
  next
    case (failed src tm e lk s1)
    then show ?thesis by (intro unchanged) auto
  next
    case (committed src tm lk s1)
    define ms where "ms = select_messages E src upd d"
    then have ms0: "ms = select_messages E src upd (db (init_frame d [RefreshSession, QuotaCheck 0]))"
      by (simp add: init_frame_def)
    note gn = guarded_None[OF committed(3) ms0]
    have dl: "\<forall>b resp. out = FnOk b resp \<longrightarrow> length (destinationUid_r resp) = length ms"
      using committed(6) gn(2) by (auto simp: init_frame_def split: option.splits)
    show ?thesis
    proof (cases "ms = []")
      case True
      with gn(5) committed(4) dl show ?thesis by (intro unchanged) (auto simp: init_frame_def)
    next
      case False
      from gn(6)[OF False] committed(4)
      have m: "Messages d' =
          map (mark_copied (map m_id ms)) (Messages d @ new_rows E sess src tm 0 (uidNext tm) ms)"
        and a: "Attachments d' = map (bump_all E 0 ms) (Attachments d)"
        by (simp_all add: init_frame_def)
      from m ins have i: "ins = map (mark_copied (map m_id ms)) (new_rows E sess src tm 0 (uidNext tm) ms)"
        by simp
      have li: "length ins = length ms" by (simp add: i)
      have rl: "length (referencing E h ins) = length (referencing E h ms)" for h
        unfolding i by (rule referencing_inserted_length)
      have rm: "map magic (referencing E h ins) = map magic (referencing E h ms)" for h
        unfolding i by (rule referencing_inserted)
      have re: "referencing E h ins = [] \<longleftrightarrow> referencing E h ms = []" for h
        using rl[of h] by (metis length_0_conv)
      have st: "counterUpdated (bump_all E 0 ms x) \<in> newDate E ` {..< length ms}"
        if "referencing E (hash x) ms \<noteq> []" for x
        using bump_all_stamp[OF that, of 0] by (simp add: atLeast0LessThan)
      show ?thesis
        using flt dl
        by (simp add: a li rl rm re bump_all_counter bump_all_magic bump_all_unreferenced st
            comp_def)
    qed
  qed
qed

theorem attachment_counters_follow_inserted_rows_witness:
  "wsp env0 = None \<and>
   attachment_hashes (MimeNode [(''1'', ''h1'')] [MimeNode [(''2'', ''h1'')] []]) = [''h1'', ''h1''] \<and>
   map counter (Attachments db0) = [1, 1, 4] \<and>
   map (\<lambda>a. length (referencing env0 (hash a)
          (drop (length (Messages db0)) (Messages (fst (snd (onCopy env0 sess0 ''A'' upd0 db0)))))))
     (Attachments db0) = [2, 1, 0] \<and>
   map counter (Attachments (fst (snd (onCopy env0 sess0 ''A'' upd0 db0)))) = [3, 2, 4]"
  using attachment_counters_follow_inserted_rows[OF example_mailboxes(1) triple_collapse refl,
      of sess0 "''A''" upd0 db0]
    example_mailboxes(1) example_counters
  by simp

section \<open>The lock\<close>

text \<open>
  Claim C6. When the call reached \<open>acquireLock\<close> and this returned a lock with
  \<open>success\<close> set, the log holds exactly one release attempt, whether the batch threw or not;
  a failing release is logged at fatal severity; replacing the outcome of the release by any
  other leaves both the value given to \<open>fn\<close> and the storage unchanged; and an error thrown
  by a statement is what \<open>fn\<close> receives, the release attempt following the throwing statement
  in the log.
\<close>

theorem lock_released_once:
  assumes w: "wsp E = None" and run: "onCopy E sess mailboxId upd d = (out, d', tr)"
    and a: "AcquireLock \<in> set tr" and l: "acquireLock E = Inr (Some l)" and s: "success l"
  shows "filter is_release tr = [ReleaseLock l] \<and>
         (\<forall>e. releaseLock E l = Some e \<longrightarrow> Fatal e \<in> set tr) \<and>
         (\<forall>rl. fst (onCopy (E\<lparr>releaseLock := rl\<rparr>) sess mailboxId upd d) = out \<and>
               fst (snd (onCopy (E\<lparr>releaseLock := rl\<rparr>) sess mailboxId upd d)) = d') \<and>
         (\<forall>q e. Ran q \<in> set tr \<and> faults E q = Some e \<longrightarrow>
               out = FnError (refineAndLogError E e) \<and>
               Ran q \<in> set (takeWhile (\<lambda>ev. \<not> is_release ev) tr))"
proof -
  have irr: "\<forall>rl. fst (onCopy (E\<lparr>releaseLock := rl\<rparr>) sess mailboxId upd d) = out \<and>
               fst (snd (onCopy (E\<lparr>releaseLock := rl\<rparr>) sess mailboxId upd d)) = d'"
    using release_outcome_irrelevant[where E=E and sess=sess and mailboxId=mailboxId and upd=upd
        and d=d] run by simp
  have rel: "\<exists>t t'. tr = t @ ReleaseLock l # t' \<and> filter is_release t = [] \<and>
               filter is_release t' = [] \<and> (\<forall>e. releaseLock E l = Some e \<longrightarrow> Fatal e \<in> set t') \<and>
               (\<forall>q. Ran q \<in> set tr \<longrightarrow> Ran q \<in> set t)"
    using w run
  proof (cases rule: onCopy_cases)
    case (early e)
    with a show ?thesis by auto
  next
    case (failed src tm e' lk s1)
    from guarded_lock[OF failed(1)] l have lk: "lk = Some l" by simp
    from guarded_trace_plain[OF failed(1)] obtain t where
      t: "trace s1 = [RefreshSession, QuotaCheck 0, AcquireLock] @ t"
        "list_all (ran_event E (Some e')) t"
      by blast
    from filter_release_ran[OF t(2)] t(1) have "filter is_release (trace s1) = []" by simp
    moreover from release_events_held[OF s] obtain rest where
      "release_events E (Some l) = ReleaseLock l # rest" "filter is_release rest = []"
      "\<forall>q. Ran q \<notin> set rest" "\<forall>e. releaseLock E l = Some e \<longrightarrow> Fatal e \<in> set rest"
      by blast
    ultimately show ?thesis using failed(3) lk
      by (intro exI[of _ "trace s1"] exI[of _ rest]) simp
  next
    case (committed src tm lk s1)
    from guarded_lock[OF committed(3)] l have lk: "lk = Some l" by simp
    from guarded_trace_plain[OF committed(3)] obtain t where
      t: "trace s1 = [RefreshSession, QuotaCheck 0, AcquireLock] @ t"
        "list_all (ran_event E None) t"
      by blast
    from filter_release_ran[OF t(2)] t(1) have "filter is_release (trace s1) = []" by simp
    moreover from release_events_held[OF s] obtain rest where
      "release_events E (Some l) = ReleaseLock l # rest" "filter is_release rest = []"
      "\<forall>q. Ran q \<notin> set rest" "\<forall>e. releaseLock E l = Some e \<longrightarrow> Fatal e \<in> set rest"
      by blast
    ultimately show ?thesis using committed(5) lk
      by (intro exI[of _ "trace s1"] exI[of _ "rest @ post_events E tm upd s1"])
        (simp add: filter_release_post post_events_no_ran)
  qed
  then obtain t t' where tr: "tr = t @ ReleaseLock l # t'" and ft: "filter is_release t = []"
    and ft': "filter is_release t' = []"
    and fatal: "\<forall>e. releaseLock E l = Some e \<longrightarrow> Fatal e \<in> set t'"
    and ran: "\<forall>q. Ran q \<in> set tr \<longrightarrow> Ran q \<in> set t"
    by blast
  have tw: "takeWhile (\<lambda>ev. \<not> is_release ev) tr = t"
    unfolding tr using ft by (rule takeWhile_no_release)
  have one: "filter is_release tr = [ReleaseLock l]" using ft ft' by (simp add: tr)
  have "out = FnError (refineAndLogError E e) \<and> Ran q \<in> set (takeWhile (\<lambda>ev. \<not> is_release ev) tr)"
    if "Ran q \<in> set tr" "faults E q = Some e" for q e
    using fault_raised[OF w run that] ran that(1) tw by simp
  with one fatal irr tr show ?thesis by auto
qed

theorem lock_released_once_witness:
  "wsp envR = None \<and>
   AcquireLock \<in> set (snd (snd (onCopy envR sess0 ''A'' upd0 db0))) \<and>
   acquireLock envR = Inr (Some \<lparr>success = True, lock_id = ''L''\<rparr>) \<and>
   success \<lparr>success = True, lock_id = ''L''\<rparr> \<and>
   releaseLock envR \<lparr>success = True, lock_id = ''L''\<rparr> = Some (Error ''LOCK_RELEASE'' None) \<and>
   filter is_release (snd (snd (onCopy envR sess0 ''A'' upd0 db0))) =
     [ReleaseLock \<lparr>success = True, lock_id = ''L''\<rparr>] \<and>
   Fatal (Error ''LOCK_RELEASE'' None) \<in> set (snd (snd (onCopy envR sess0 ''A'' upd0 db0))) \<and>
   fst (onCopy envR sess0 ''A'' upd0 db0) = FnOk True (Response 1 [9, 7, 5] [102, 101, 100]) \<and>
   fst (onCopy (envR\<lparr>releaseLock := (\<lambda>l. None)\<rparr>) sess0 ''A'' upd0 db0) =
     FnOk True (Response 1 [9, 7, 5] [102, 101, 100])"
proof -
  have h: "wsp envR = None"
    "acquireLock envR = Inr (Some \<lparr>success = True, lock_id = ''L''\<rparr>)"
    "success \<lparr>success = True, lock_id = ''L''\<rparr>"
    "releaseLock envR \<lparr>success = True, lock_id = ''L''\<rparr> = Some (Error ''LOCK_RELEASE'' None)"
    by (simp_all add: envR_def env0_def)
  note t = lock_released_once[OF h(1) triple_collapse example_release(2) h(2,3)]
  from t have "filter is_release (snd (snd (onCopy envR sess0 ''A'' upd0 db0))) =
     [ReleaseLock \<lparr>success = True, lock_id = ''L''\<rparr>]" by blast
  moreover from t h(4)
  have "Fatal (Error ''LOCK_RELEASE'' None) \<in> set (snd (snd (onCopy envR sess0 ''A'' upd0 db0)))"
    by blast
  moreover from t
  have "fst (onCopy (envR\<lparr>releaseLock := (\<lambda>l. None)\<rparr>) sess0 ''A'' upd0 db0) =
     fst (onCopy envR sess0 ''A'' upd0 db0)"
    by blast
  ultimately show ?thesis using h example_release by simp
qed

section \<open>Missing mailboxes\<close>

text \<open>
  Claim C7. When the session is refreshed and the account is not over quota: if the source
  mailbox identifier resolves to no mailbox, \<open>fn\<close> receives the error thrown with response
  code \<open>NONEXISTENT\<close>; if the source resolves and the destination path does not, it receives
  the error thrown with response code \<open>TRYCREATE\<close>; the two codes differ. In both cases the
  storage is untouched and neither the lock nor any statement was reached.
\<close>

theorem missing_mailbox_error_kinds:
  assumes "wsp E = None" and "refreshSession E = None" and "isOverQuota E 0 = Inr False"
  shows "(findOne (\<lambda>b. mb_id b = mailboxId) d = None \<longrightarrow>
            onCopy E sess mailboxId upd d =
              (FnError (refineAndLogError E nonexistent_error), d, [RefreshSession, QuotaCheck 0])) \<and>
         (findOne (\<lambda>b. mb_id b = mailboxId) d \<noteq> None \<and>
          findOne (\<lambda>b. path b = destination upd) d = None \<longrightarrow>
            onCopy E sess mailboxId upd d =
              (FnError (refineAndLogError E trycreate_error), d, [RefreshSession, QuotaCheck 0])) \<and>
         imapResponse nonexistent_error = Some ''NONEXISTENT'' \<and>
         imapResponse trycreate_error = Some ''TRYCREATE'' \<and>
         imapResponse nonexistent_error \<noteq> imapResponse trycreate_error"
  using assms
  by (auto simp: onCopy_local onCopy_body_def nonexistent_error_def trycreate_error_def)

theorem missing_mailbox_error_kinds_witness:
  "wsp env0 = None \<and> refreshSession env0 = None \<and> isOverQuota env0 0 = Inr False \<and>
   findOne (\<lambda>b. mb_id b = ''Z'') db0 = None \<and>
   fst (onCopy env0 sess0 ''Z'' upd0 db0) = FnError (Error ''IMAP_MAILBOX_DOES_NOT_EXIST'' (Some ''NONEXISTENT'')) \<and>
   findOne (\<lambda>b. mb_id b = ''A'') db0 \<noteq> None \<and>
   findOne (\<lambda>b. path b = destination (upd0\<lparr>destination := ''Nowhere''\<rparr>)) db0 = None \<and>
   fst (onCopy env0 sess0 ''A'' (upd0\<lparr>destination := ''Nowhere''\<rparr>) db0) = FnError (Error ''IMAP_MAILBOX_DOES_NOT_EXIST'' (Some ''TRYCREATE''))"
proof -
  have h: "wsp env0 = None" "refreshSession env0 = None" "isOverQuota env0 0 = Inr False"
    by (simp_all add: env0_def)
  have f: "findOne (\<lambda>b. mb_id b = ''Z'') db0 = None"
    "findOne (\<lambda>b. mb_id b = ''A'') db0 \<noteq> None"
    "findOne (\<lambda>b. path b = destination (upd0\<lparr>destination := ''Nowhere''\<rparr>)) db0 = None"
    by (simp_all add: findOne_def db0_def upd0_def)
  have r: "refineAndLogError env0 = (\<lambda>e. e)" by (simp add: env0_def)
  show ?thesis
    using h f missing_mailbox_error_kinds[where E=env0 and mailboxId="''Z''" and d=db0 and sess=sess0 and upd=upd0, OF h]
      missing_mailbox_error_kinds[where E=env0 and mailboxId="''A''" and d=db0 and sess=sess0
        and upd="upd0\<lparr>destination := ''Nowhere''\<rparr>", OF h]
    by (simp add: r nonexistent_error_def trycreate_error_def)
qed

section \<open>The expiry flag\<close>

text \<open>
  Claim C8 says that the expiry flag is set if and only if the retention of the destination
  mailbox is a positive duration. The handler tests \<open>retention !== 0\<close> (lines 170-176), so a
  numeric retention below zero sets the flag too: with retention \<open>-1\<close> on mailbox \<open>B\<close> every
  copied row has the flag set.
\<close>

theorem expiry_flag_negative_retention_counterexample:
  "map retention (Mailboxes db2) = [None, Some (- 1)] \<and> \<not> (0 :: int) < - 1 \<and>
   fst (onCopy env0 sess0 ''A'' upd0 db2) = FnOk True (Response 1 [9, 7, 5] [102, 101, 100]) \<and>
   map exp_flag (drop 3 (Messages (fst (snd (onCopy env0 sess0 ''A'' upd0 db2))))) = [1, 1, 1]"
  using example_negative by (simp add: db2_def db0_def)

text \<open>
  Claim C8, as the handler has it. On every row that a successful COPY inserts, the expiry
  flag is set if and only if the retention of the destination mailbox is a number other than
  zero: a retention that is the number zero and an absent (non-numeric) retention both leave
  the flag unset, and every other number sets it, a positive duration in particular.
\<close>

theorem expiry_flag_nonzero_retention:
  assumes "wsp E = None"
    and "findOne (\<lambda>b. mb_id b = mailboxId) d = Some src"
    and "findOne (\<lambda>b. path b = destination upd) d = Some tm"
    and "onCopy E sess mailboxId upd d = (FnOk b resp, d', tr)"
  shows "length (drop (length (Messages d)) (Messages d')) = length (destinationUid_r resp) \<and>
         (\<forall>m \<in> set (drop (length (Messages d)) (Messages d')).
            (exp_flag m = 1) = (\<exists>r. retention tm = Some r \<and> r \<noteq> 0) \<and>
            (exp_flag m = 0) = (retention tm = None \<or> retention tm = Some 0) \<and>
            (\<forall>r. retention tm = Some r \<and> 0 < r \<longrightarrow> exp_flag m = 1))"
proof -
  let ?ms = "select_messages E src upd d"
  note ok = onCopy_ok[OF assms refl]
  show ?thesis
  proof (cases "?ms = []")
    case True
    with ok(1,2) show ?thesis by simp
  next
    case False
    from ok(3)[OF False]
    have "drop (length (Messages d)) (Messages d') =
            map (mark_copied (map m_id ?ms)) (new_rows E sess src tm 0 (uidNext tm) ?ms)"
      by simp
    with ok(1) show ?thesis by (auto dest!: new_rows_fields split: option.splits if_splits)
  qed
qed

theorem expiry_flag_nonzero_retention_witness:
  "wsp env0 = None \<and>
   fst (onCopy env0 sess0 ''A'' upd0 db1) = FnOk True (Response 1 [9, 7, 5] [102, 101, 100]) \<and>
   retention \<lparr>mb_id = ''B'', path = ''Archive'', uidNext = 100, uidValidity = 1, modifyIndex = 2,
          retention = Some 86400000, specialUse = ''''\<rparr> = Some 86400000 \<and>
   map exp_flag (drop 3 (Messages (fst (snd (onCopy env0 sess0 ''A'' upd0 db1))))) = [1, 1, 1] \<and>
   fst (onCopy env0 sess0 ''A'' upd0 db0) = FnOk True (Response 1 [9, 7, 5] [102, 101, 100]) \<and>
   retention \<lparr>mb_id = ''B'', path = ''Archive'', uidNext = 100, uidValidity = 1, modifyIndex = 2,
          retention = Some 0, specialUse = ''''\<rparr> = Some 0 \<and>
   map exp_flag (drop 3 (Messages (fst (snd (onCopy env0 sess0 ''A'' upd0 db0))))) = [0, 0, 0]"
  using expiry_flag_nonzero_retention[OF example_mailboxes1 example_triple1]
    expiry_flag_nonzero_retention[OF example_mailboxes example_triple]
    example_copy1 example_copy example_mailboxes(1) example_exp_flags
  by simp

section \<open>Over quota before the copy\<close>

text \<open>
  Claim C9. When the quota check before the copy reports the account over quota, \<open>fn\<close>
  receives the \<open>OVERQUOTA\<close> error, the storage is unchanged, \<open>acquireLock\<close> was never called
  and no statement (neither the select of the source rows nor any write) was run.
\<close>

theorem over_quota_before_lock:
  assumes "wsp E = None" and "refreshSession E = None" and "isOverQuota E 0 = Inr True"
  shows "case onCopy E sess mailboxId upd d of
           (out, d', tr) \<Rightarrow>
             out = FnError (refineAndLogError E over_quota_error) \<and>
             imapResponse over_quota_error = Some ''OVERQUOTA'' \<and>
             d' = d \<and> AcquireLock \<notin> set tr \<and> (\<forall>q. Ran q \<notin> set tr)"
  using assms by (auto simp: onCopy_local onCopy_body_def over_quota_error_def)

theorem over_quota_before_lock_witness:
  "wsp (env0\<lparr>isOverQuota := (\<lambda>d. Inr True)\<rparr>) = None \<and>
   refreshSession (env0\<lparr>isOverQuota := (\<lambda>d. Inr True)\<rparr>) = None \<and>
   isOverQuota (env0\<lparr>isOverQuota := (\<lambda>d. Inr True)\<rparr>) 0 = Inr True \<and>
   onCopy (env0\<lparr>isOverQuota := (\<lambda>d. Inr True)\<rparr>) sess0 ''A'' upd0 db0 =
     (FnError (Error ''IMAP_MAILBOX_OVER_QUOTA'' (Some ''OVERQUOTA'')), db0,
      [RefreshSession, QuotaCheck 0])"
proof -
  let ?E = "env0\<lparr>isOverQuota := (\<lambda>d. Inr True)\<rparr>"
  have h: "wsp ?E = None" "refreshSession ?E = None" "isOverQuota ?E 0 = Inr True"
    by (simp_all add: env0_def)
  have r: "refineAndLogError ?E = (\<lambda>e. e)" by (simp add: env0_def)
  show ?thesis
    using h over_quota_before_lock[where E="?E" and sess=sess0 and mailboxId="''A''" and upd=upd0
        and d=db0, OF h]
    by (simp add: r over_quota_error_def onCopy_local onCopy_body_def)
qed

section \<open>An empty UID filter\<close>

text \<open>
  Claim C10. When \<open>update.messages\<close> is empty the select has no UID condition: a successful
  COPY then reports the UIDs of all messages of the source mailbox and inserts one copy of each
  of them, in ascending UID order, into the destination mailbox.
\<close>

theorem empty_filter_copies_all:
  assumes "wsp E = None"
    and "findOne (\<lambda>b. mb_id b = mailboxId) d = Some src"
    and "findOne (\<lambda>b. path b = destination upd) d = Some tm"
    and "onCopy E sess mailboxId upd d = (FnOk b resp, d', tr)"
    and "messages upd = []"
  shows "rev (sourceUid_r resp) =
           map uid (sort_key uid (filter (\<lambda>m. mailbox m = mb_id src) (Messages d))) \<and>
         length (Messages d') =
           length (Messages d) + length (filter (\<lambda>m. mailbox m = mb_id src) (Messages d)) \<and>
         map mimeTree (drop (length (Messages d)) (Messages d')) =
           map mimeTree (sort_key uid (filter (\<lambda>m. mailbox m = mb_id src) (Messages d))) \<and>
         (\<forall>m \<in> set (drop (length (Messages d)) (Messages d')). mailbox m = mb_id tm)"
proof -
  define ms where "ms = select_messages E src upd d"
  define all where "all = filter (\<lambda>m. mailbox m = mb_id src) (Messages d)"
  have sel: "ms = sort_key uid all"
    using assms(5) by (simp add: ms_def all_def select_messages_def)
  then have L: "length ms = length all" by simp
  note ok = onCopy_ok[OF assms(1-4) ms_def]
  have A: "rev (sourceUid_r resp) = map uid ms" using ok(1) by simp
  have "length (Messages d') = length (Messages d) + length ms \<and>
        map mimeTree (drop (length (Messages d)) (Messages d')) = map mimeTree ms \<and>
        (\<forall>m \<in> set (drop (length (Messages d)) (Messages d')). mailbox m = mb_id tm)"
  proof (cases "ms = []")
    case True
    with ok(2) show ?thesis by simp
  next
    case False
    from ok(3)[OF False]
    have m: "Messages d' =
        map (mark_copied (map m_id ms)) (Messages d @ new_rows E sess src tm 0 (uidNext tm) ms)"
      by simp
    then have dr: "drop (length (Messages d)) (Messages d') =
        map (mark_copied (map m_id ms)) (new_rows E sess src tm 0 (uidNext tm) ms)"
      by simp
    have len: "length (Messages d') = length (Messages d) + length ms" using m by simp
    have "map mimeTree (map (mark_copied (map m_id ms)) (new_rows E sess src tm 0 (uidNext tm) ms))
            = map mimeTree (new_rows E sess src tm 0 (uidNext tm) ms)"
      by (simp add: comp_def)
    then have mt: "map mimeTree (drop (length (Messages d)) (Messages d')) = map mimeTree ms"
      unfolding dr by (simp only: new_rows_mimeTree)
    have mb: "\<forall>m \<in> set (drop (length (Messages d)) (Messages d')). mailbox m = mb_id tm"
      unfolding dr by (auto dest!: new_rows_fields)
    from len mt mb show ?thesis by blast
  qed
  with A L show ?thesis unfolding sel all_def[symmetric] by simp
qed

theorem empty_filter_copies_all_witness:
  "wsp env0 = None \<and> messages upd0 = [] \<and>
   fst (onCopy env0 sess0 ''A'' upd0 db0) = FnOk True (Response 1 [9, 7, 5] [102, 101, 100]) \<and>
   map uid (sort_key uid (filter (\<lambda>m. mailbox m = ''A'') (Messages db0))) = [5, 7, 9] \<and>
   length (Messages db0) = 3 \<and>
   length (Messages (fst (snd (onCopy env0 sess0 ''A'' upd0 db0)))) = 6"
proof -
  have e: "messages upd0 = []" by (simp add: upd0_def)
  show ?thesis
    using empty_filter_copies_all[OF example_mailboxes example_triple e] example_copy
      example_mailboxes(1) e
    by (simp add: db0_def msg0_def)
qed

end
